theory Spec2Isabelle
  imports Complex_Main
begin

section \<open>Data model\<close>

text \<open>
  The flat records of \<^verbatim>\<open>geography_segment_matrix\<close>, as the TypeScript reads them.
  JavaScript numbers are idealised as reals (years and aggregation levels as integers); a
  number that is no real (\<^verbatim>\<open>NaN\<close>, an infinity) is \<open>None\<close> where it can arise.
  An optional field is an \<open>option\<close>: \<open>None\<close> stands for \<^verbatim>\<open>null\<close> or \<^verbatim>\<open>undefined\<close>.
  A JavaScript object with string keys is an association list in key order.
\<close>

record SegmentHierarchy =
  level_1 :: "string option"
  level_2 :: "string option"
  level_3 :: "string option"
  level_4 :: "string option"
  level_5 :: "string option"

record SegmentRecord =
  geography :: string
  segment_type :: string
  segment_hierarchy :: SegmentHierarchy
  time_series :: "(string \<times> real) list"
  cagr :: "real option"
  is_aggregated :: "bool option"
  aggregation_level :: "int option"

record Filters =
  geographies :: "string list"
  segmentType :: "string option"
  dataType :: string
  yearRange :: "(int \<times> int) option"
  viewMode :: string

record SegmentDimension =
  items :: "string list option"
  hierarchy :: "(string \<times> string list) list option"

text \<open>
  \<open>segments\<close> is \<^verbatim>\<open>data.dimensions.segments\<close> in the order of \<^verbatim>\<open>Object.entries\<close>;
  \<open>value_matrix\<close> is \<^verbatim>\<open>data.data.value.geography_segment_matrix\<close> and
  \<open>volume_matrix\<close> is \<^verbatim>\<open>data.data.volume.geography_segment_matrix\<close>, which may be absent.
\<close>

record ComparisonData =
  all_geographies :: "string list"
  segments :: "(string \<times> SegmentDimension) list"
  value_matrix :: "SegmentRecord list"
  volume_matrix :: "SegmentRecord list option"
  metadata_currency :: "string option"
  value_unit :: "string option"
  volume_unit :: "string option"

record KpiSummary =
  marketSizeStart :: real
  marketSizeEnd :: real
  startYear :: int
  endYear :: int
  cagr_kpi :: "real option"
  absoluteGrowth :: real
  growthPercentage :: real
  currency_kpi :: string
  unit_kpi :: string
  dataTypeLabel :: string
  geographyLabel :: string
  segmentTypeLabel :: string
  dataType_kpi :: string
  isINR :: bool

section \<open>JavaScript helpers\<close>

text \<open>Truthiness of an optional string (\<^verbatim>\<open>a || b\<close>): absent and empty are falsy.\<close>

fun truthyStr :: "string option \<Rightarrow> bool" where
  "truthyStr None = False"
| "truthyStr (Some s) = (s \<noteq> [])"

fun orStr :: "string option \<Rightarrow> string option \<Rightarrow> string option" where
  "orStr a b = (if truthyStr a then a else b)"

text \<open>\<^verbatim>\<open>r.aggregation_level || 999\<close>: an absent level and the level 0 are falsy.\<close>

fun levelOr999 :: "int option \<Rightarrow> int" where
  "levelOr999 None = 999"
| "levelOr999 (Some l) = (if l = 0 then 999 else l)"

text \<open>\<^verbatim>\<open>Math.min(...xs)\<close> and \<^verbatim>\<open>Math.max(...xs)\<close> on a non-empty list.\<close>

fun Math_min :: "int list \<Rightarrow> int" where
  "Math_min [] = 0"
| "Math_min (x # xs) = fold min xs x"

fun Math_max :: "int list \<Rightarrow> int" where
  "Math_max [] = 0"
| "Math_max (x # xs) = fold max xs x"

text \<open>\<^verbatim>\<open>String(n)\<close> for an integer.\<close>

definition digitChar :: "nat \<Rightarrow> char" where
  "digitChar d = ''0123456789'' ! d"

fun showNat :: "nat \<Rightarrow> string" where
  "showNat n = (if n < 10 then [digitChar n] else showNat (n div 10) @ [digitChar (n mod 10)])"

definition String_of_int :: "int \<Rightarrow> string" where
  "String_of_int i = (if i < 0 then CHR ''-'' # showNat (nat (- i)) else showNat (nat i))"

text \<open>
  \<^verbatim>\<open>parseInt\<close> is a built-in of the language and a parameter of the aggregator below: a
  function from a key to the integer read, \<open>None\<close> for \<^verbatim>\<open>NaN\<close>. (A digit string too long for
  a double, which the language reads as an infinity, is outside the model.) For the examples,
  \<open>parseIntAscii\<close> reads a key of ASCII characters as \<^verbatim>\<open>parseInt\<close> without a radix does when
  the number is below \<open>2 ^ 53\<close>: leading white space is skipped, a sign is read, a \<^verbatim>\<open>0x\<close> prefix
  selects base 16, and the longest prefix of digits is the value.
\<close>

definition isWhite :: "char \<Rightarrow> bool" where
  "isWhite c = (c = CHR '' '' \<or> c = CHR 0x09 \<or> c = CHR 0x0A \<or> c = CHR 0x0B
      \<or> c = CHR 0x0C \<or> c = CHR 0x0D)"

definition digitVal :: "char \<Rightarrow> nat option" where
  "digitVal c =
    map_of (zip ''0123456789abcdefABCDEF''
                [0, 1, 2, 3, 4, 5, 6, 7, 8, 9, 10, 11, 12, 13, 14, 15, 10, 11, 12, 13, 14, 15]) c"

fun takeDigits :: "nat \<Rightarrow> string \<Rightarrow> nat list" where
  "takeDigits radix [] = []"
| "takeDigits radix (c # cs) =
    (case digitVal c of
       None \<Rightarrow> []
     | Some d \<Rightarrow> if d < radix then d # takeDigits radix cs else [])"

definition parseIntAscii :: "string \<Rightarrow> int option" where
  "parseIntAscii s =
    (let s1 = dropWhile isWhite s;
         neg = (case s1 of [] \<Rightarrow> False | c # t \<Rightarrow> c = CHR ''-'');
         s2 = (case s1 of [] \<Rightarrow> [] | c # t \<Rightarrow> if c = CHR ''-'' \<or> c = CHR ''+'' then t else s1);
         hex = (case s2 of a # b # t \<Rightarrow> a = CHR ''0'' \<and> (b = CHR ''x'' \<or> b = CHR ''X'') | _ \<Rightarrow> False);
         radix = (if hex then 16 else 10);
         ds = takeDigits radix (if hex then drop 2 s2 else s2);
         v = int (foldl (\<lambda>a d. a * radix + d) 0 ds)
     in if ds = [] then None else Some (if neg then - v else v))"

text \<open>A JavaScript \<^verbatim>\<open>Map\<close>, which iterates in insertion order: \<^verbatim>\<open>has\<close>, \<^verbatim>\<open>get\<close>, \<^verbatim>\<open>set\<close>.\<close>

fun mapHas :: "('k \<times> 'v) list \<Rightarrow> 'k \<Rightarrow> bool" where
  "mapHas [] k = False"
| "mapHas ((k', v) # m) k = (k' = k \<or> mapHas m k)"

fun mapGet :: "('k \<times> 'v) list \<Rightarrow> 'k \<Rightarrow> 'v option" where
  "mapGet [] k = None"
| "mapGet ((k', v) # m) k = (if k' = k then Some v else mapGet m k)"

fun mapSet :: "('k \<times> 'v) list \<Rightarrow> 'k \<Rightarrow> 'v \<Rightarrow> ('k \<times> 'v) list" where
  "mapSet [] k v = [(k, v)]"
| "mapSet ((k', v') # m) k v = (if k' = k then (k, v) # m else (k', v') # mapSet m k v)"

section \<open>The KPI aggregator (GlobalKPICards.tsx, the \<^verbatim>\<open>kpiData\<close> memo)\<close>

subsection \<open>Record selection\<close>

text \<open>\<^verbatim>\<open>filters.segmentType || segmentTypes[0] || null\<close>.\<close>

definition targetSegmentType :: "ComparisonData \<Rightarrow> Filters \<Rightarrow> string option" where
  "targetSegmentType d f =
    (let segmentTypes = map fst (segments d)
     in orStr (orStr (segmentType f) (case segmentTypes of [] \<Rightarrow> None | t # _ \<Rightarrow> Some t)) None)"

definition dataset :: "ComparisonData \<Rightarrow> Filters \<Rightarrow> SegmentRecord list option" where
  "dataset d f = (if dataType f = ''value'' then Some (value_matrix d) else volume_matrix d)"

definition isGeographyMode :: "Filters \<Rightarrow> bool" where
  "isGeographyMode f = (viewMode f = ''geography-mode'')"

text \<open>The first \<^verbatim>\<open>dataset.filter\<close>: by selected geography and, outside geography mode, by segment type.\<close>

definition globalRecords :: "string list \<Rightarrow> bool \<Rightarrow> string \<Rightarrow> SegmentRecord list \<Rightarrow> SegmentRecord list" where
  "globalRecords selectedGeographies geoMode target ds =
    filter (\<lambda>record.
      if length selectedGeographies > 0 \<and> geography record \<notin> set selectedGeographies then False
      else if \<not> geoMode \<and> target \<noteq> [] \<and> segment_type record \<noteq> target then False
      else True) ds"

text \<open>Grouping into a \<^verbatim>\<open>Map\<close> of arrays: create the entry when missing, then push.\<close>

definition groupPush :: "(string \<times> SegmentRecord list) list \<Rightarrow> string \<Rightarrow> SegmentRecord
    \<Rightarrow> (string \<times> SegmentRecord list) list" where
  "groupPush m k r =
    (let m1 = (if \<not> mapHas m k then mapSet m k [] else m)
     in case mapGet m1 k of None \<Rightarrow> m1 | Some rs \<Rightarrow> mapSet m1 k (rs @ [r]))"

definition recordsByGeography :: "SegmentRecord list \<Rightarrow> (string \<times> SegmentRecord list) list" where
  "recordsByGeography recs = fold (\<lambda>record m. groupPush m (geography record) record) recs []"

definition bySegmentType :: "SegmentRecord list \<Rightarrow> (string \<times> SegmentRecord list) list" where
  "bySegmentType geoRecords = fold (\<lambda>r m. groupPush m (segment_type r) r) geoRecords []"

text \<open>\<^verbatim>\<open>bySegmentType.values().next().value || []\<close>.\<close>

definition firstSegTypeRecords :: "SegmentRecord list \<Rightarrow> SegmentRecord list" where
  "firstSegTypeRecords geoRecords =
    (case bySegmentType geoRecords of [] \<Rightarrow> [] | (t, rs) # _ \<Rightarrow> rs)"

text \<open>Geography mode: leaf records (\<^verbatim>\<open>!r.is_aggregated\<close>), then level 1, then the lowest level.\<close>

definition recordsToUse :: "SegmentRecord list \<Rightarrow> SegmentRecord list" where
  "recordsToUse firstRecs =
    (let r1 = filter (\<lambda>r. is_aggregated r \<noteq> Some True) firstRecs;
         r2 = (if length r1 = 0 then filter (\<lambda>r. aggregation_level r = Some 1) firstRecs else r1)
     in if length r2 = 0 \<and> length firstRecs > 0
        then (let minLevel = Math_min (map (\<lambda>r. levelOr999 (aggregation_level r)) firstRecs)
              in filter (\<lambda>r. levelOr999 (aggregation_level r) = minLevel) firstRecs)
        else r2)"

definition deduplicatedRecords :: "SegmentRecord list \<Rightarrow> SegmentRecord list" where
  "deduplicatedRecords recs =
    concat (map (\<lambda>(geo, geoRecords). recordsToUse (firstSegTypeRecords geoRecords))
                (recordsByGeography recs))"

text \<open>
  Outside geography mode: the key of the de-duplicating map is the template string
  \<^verbatim>\<open>`${record.geography}::${record.segment_type}`\<close>; an entry is replaced when the new record
  has a truthy level below the kept one's level (or 999).
\<close>

definition geoKey :: "SegmentRecord \<Rightarrow> string" where
  "geoKey record = geography record @ ''::'' @ segment_type record"

definition geoMapStep :: "SegmentRecord \<Rightarrow> (string \<times> SegmentRecord) list \<Rightarrow> (string \<times> SegmentRecord) list" where
  "geoMapStep record geoMap =
    (case mapGet geoMap (geoKey record) of
       None \<Rightarrow> mapSet geoMap (geoKey record) record
     | Some existing \<Rightarrow>
         if (case aggregation_level record of None \<Rightarrow> False
             | Some l \<Rightarrow> l \<noteq> 0 \<and> l < levelOr999 (aggregation_level existing))
         then mapSet geoMap (geoKey record) record
         else geoMap)"

definition geoMapValues :: "SegmentRecord list \<Rightarrow> SegmentRecord list" where
  "geoMapValues recs = map snd (fold geoMapStep recs [])"

definition leafRecordsNormal :: "SegmentRecord list \<Rightarrow> SegmentRecord list" where
  "leafRecordsNormal recs =
    (let l1 = filter (\<lambda>record. is_aggregated record = Some False) recs;
         l2 = (if length l1 = 0 then filter (\<lambda>record. aggregation_level record = Some 1) recs else l1)
     in if length l2 = 0 then geoMapValues recs else l2)"

text \<open>The records chosen before the fallback.\<close>

definition leafRecords :: "string list \<Rightarrow> bool \<Rightarrow> string \<Rightarrow> SegmentRecord list \<Rightarrow> SegmentRecord list" where
  "leafRecords selectedGeographies geoMode target ds =
    (let g0 = globalRecords selectedGeographies geoMode target ds;
         g1 = (if geoMode \<and> length g0 > 0 then deduplicatedRecords g0 else g0)
     in if geoMode then g1 else leafRecordsNormal g1)"

text \<open>The fallback: all geographies of the target segment type.\<close>

definition fallbackRecords :: "string \<Rightarrow> SegmentRecord list \<Rightarrow> SegmentRecord list" where
  "fallbackRecords target ds =
    (let allRecordsForSegmentType = filter (\<lambda>record. segment_type record = target) ds;
         f1 = filter (\<lambda>record. is_aggregated record = Some False) allRecordsForSegmentType;
         f2 = (if length f1 = 0
               then filter (\<lambda>record. aggregation_level record = Some 1) allRecordsForSegmentType
               else f1)
     in if length f2 = 0 then allRecordsForSegmentType else f2)"

text \<open>
  The records that are summed, with the value of the local variable
  \<^verbatim>\<open>selectedGeographies\<close> after the fallback.
\<close>

definition selectRecords :: "string list \<Rightarrow> bool \<Rightarrow> string \<Rightarrow> SegmentRecord list
    \<Rightarrow> SegmentRecord list \<times> string list" where
  "selectRecords selectedGeographies geoMode target ds =
    (let l0 = leafRecords selectedGeographies geoMode target ds
     in if length l0 = 0 \<and> length selectedGeographies > 0
        then (let fb = fallbackRecords target ds
              in if length fb > 0 then (fb, []) else (l0, selectedGeographies))
        else (l0, selectedGeographies))"

subsection \<open>Years, sums and growth figures\<close>

text \<open>
  \<^verbatim>\<open>record.time_series[y] || record.time_series[String(y)] || 0\<close>: a property key is
  always the string form of the year, so both reads are the same read; a missing or zero
  value gives 0.
\<close>

definition tsGet :: "(string \<times> real) list \<Rightarrow> int \<Rightarrow> real" where
  "tsGet ts y = (case map_of ts (String_of_int y) of None \<Rightarrow> 0 | Some v \<Rightarrow> v)"

text \<open>\<^verbatim>\<open>Object.keys(ts).map(y => parseInt(y)).filter(y => !isNaN(y)).sort((a, b) => a - b)\<close>.\<close>

definition availableYears :: "(string \<Rightarrow> int option) \<Rightarrow> (string \<times> real) list \<Rightarrow> int list" where
  "availableYears parseInt ts = sort (List.map_filter parseInt (map fst ts))"

text \<open>\<^verbatim>\<open>const [startYear, endYear] = filters.yearRange || [2024, 2032]\<close>.\<close>

definition filterYearRange :: "Filters \<Rightarrow> int \<times> int" where
  "filterYearRange f = (case yearRange f of None \<Rightarrow> (2024, 2032) | Some p \<Rightarrow> p)"

definition actualStartYear :: "(string \<Rightarrow> int option) \<Rightarrow> Filters \<Rightarrow> SegmentRecord list \<Rightarrow> int" where
  "actualStartYear parseInt f recs =
    (let ys = availableYears parseInt (case recs of [] \<Rightarrow> [] | r # _ \<Rightarrow> time_series r)
     in if length ys > 0 then Math_min ys else fst (filterYearRange f))"

definition actualEndYear :: "(string \<Rightarrow> int option) \<Rightarrow> Filters \<Rightarrow> SegmentRecord list \<Rightarrow> int" where
  "actualEndYear parseInt f recs =
    (let ys = availableYears parseInt (case recs of [] \<Rightarrow> [] | r # _ \<Rightarrow> time_series r)
     in if length ys > 0 then Math_max ys else snd (filterYearRange f))"

definition sumYear :: "SegmentRecord list \<Rightarrow> int \<Rightarrow> real" where
  "sumYear recs y = foldl (\<lambda>acc record. acc + tsGet (time_series record) y) 0 recs"

text \<open>
  \<^verbatim>\<open>Math.pow(x, y)\<close> on reals. The result is no real, here \<open>None\<close>, for a negative base with
  an exponent that is not an integer (\<^verbatim>\<open>NaN\<close>) and for the base 0 with a negative exponent
  (an infinity).
\<close>

definition Math_pow :: "real \<Rightarrow> real \<Rightarrow> real option" where
  "Math_pow x y =
    (if y = 0 then Some 1
     else if x > 0 then Some (x powr y)
     else if x = 0 then (if y > 0 then Some 0 else None)
     else if y = real_of_int \<lfloor>y\<rfloor> then Some (x powi \<lfloor>y\<rfloor>)
     else None)"

definition cagrOf :: "real \<Rightarrow> real \<Rightarrow> int \<Rightarrow> real option" where
  "cagrOf mStart mEnd years =
    (if mStart > 0 \<and> years > 0
     then map_option (\<lambda>p. (p - 1) * 100) (Math_pow (mEnd / mStart) (1 / real_of_int years))
     else Some 0)"

definition growthPercentageOf :: "real \<Rightarrow> real \<Rightarrow> real" where
  "growthPercentageOf mStart mEnd =
    (if mStart > 0 then ((mEnd - mStart) / mStart) * 100 else 0)"

subsection \<open>Labels\<close>

fun joinWith :: "string \<Rightarrow> string list \<Rightarrow> string" where
  "joinWith sep [] = []"
| "joinWith sep [x] = x"
| "joinWith sep (x # y # ys) = x @ sep @ joinWith sep (y # ys)"

definition geographyLabelOf :: "string list \<Rightarrow> string" where
  "geographyLabelOf actualSelectedGeographies =
    (if length actualSelectedGeographies = 0 then ''All Geographies''
     else if length actualSelectedGeographies = 1 then actualSelectedGeographies ! 0
     else showNat (length actualSelectedGeographies) @ '' Geographies (''
          @ joinWith '', '' (take 2 actualSelectedGeographies)
          @ (if length actualSelectedGeographies > 2 then ''...'' else [])
          @ '')'')"

subsection \<open>The memo body\<close>

definition orDefault :: "string option \<Rightarrow> string \<Rightarrow> string" where
  "orDefault a dflt = (case a of None \<Rightarrow> dflt | Some s \<Rightarrow> if s \<noteq> [] then s else dflt)"

definition kpiData :: "(string \<Rightarrow> int option) \<Rightarrow> ComparisonData option \<Rightarrow> Filters \<Rightarrow> string option
    \<Rightarrow> KpiSummary option" where
  "kpiData parseInt dataOpt f currency =
    (case dataOpt of
       None \<Rightarrow> None
     | Some d \<Rightarrow>
        (case targetSegmentType d f of
           None \<Rightarrow> None
         | Some target \<Rightarrow>
            (case dataset d f of
               None \<Rightarrow> None
             | Some ds \<Rightarrow>
                if length ds = 0 then None
                else
                  (let selectedGeographies = (if length (geographies f) > 0 then geographies f else []);
                       recs = fst (selectRecords selectedGeographies (isGeographyMode f) target ds)
                   in if length recs = 0 then None
                      else
                        (let sy = actualStartYear parseInt f recs;
                             ey = actualEndYear parseInt f recs;
                             mStart = sumYear recs sy;
                             mEnd = sumYear recs ey;
                             selectedCurrency =
                               orDefault (orStr currency (metadata_currency d)) ''USD'';
                             inr = (selectedCurrency = ''INR'');
                             unit =
                               (if dataType f = ''value''
                                then orDefault (value_unit d) ''Million''
                                else orDefault (volume_unit d) ''Units'');
                             actualSelectedGeographies =
                               (if length (geographies f) > 0 then geographies f else [])
                         in Some \<lparr>
                              marketSizeStart = mStart,
                              marketSizeEnd = mEnd,
                              startYear = sy,
                              endYear = ey,
                              cagr_kpi = cagrOf mStart mEnd (ey - sy),
                              absoluteGrowth = mEnd - mStart,
                              growthPercentage = growthPercentageOf mStart mEnd,
                              currency_kpi = selectedCurrency,
                              unit_kpi = (if inr then [] else orDefault (Some unit) ''Million''),
                              dataTypeLabel =
                                (if dataType f = ''value'' then ''Market Size'' else ''Market Volume''),
                              geographyLabel = geographyLabelOf actualSelectedGeographies,
                              segmentTypeLabel = (if target \<noteq> [] then target else ''All Segments''),
                              dataType_kpi = dataType f,
                              isINR = inr \<rparr>)))))"

section \<open>The hierarchy reconstructor (dashboard-generator.ts)\<close>

subsection \<open>JSON values\<close>

text \<open>
  The exported tree is a JSON value. An object is an association list; the order of its
  entries stands for insertion order and is not the subject of any statement below.
  An association list holds the own properties of an object. Every object also inherits the
  properties of \<^verbatim>\<open>Object.prototype\<close>, whose names are listed below.
\<close>

datatype jvalue = JNum real | JStr string | JBool bool | JObj "(string \<times> jvalue) list"

text \<open>
  The ways in which the code leaves the tree: \<open>TypeError\<close> is thrown, or (\<open>OutsideTree\<close>) the
  code reads a property that a built-in prototype may provide, and then goes on in a value
  that is no part of the tree or throws; its course from there is not modelled.
\<close>

datatype jserror = TypeError | OutsideTree

definition objectPrototypeNames :: "string list" where
  "objectPrototypeNames =
    [''constructor'', ''__proto__'', ''hasOwnProperty'', ''isPrototypeOf'', ''propertyIsEnumerable'',
     ''toLocaleString'', ''toString'', ''valueOf'', ''__defineGetter__'', ''__defineSetter__'',
     ''__lookupGetter__'', ''__lookupSetter__'']"

text \<open>
  The properties that a number, a string or a boolean can have (from its prototypes, the
  length and the indices of a string) all have names made of letters, digits, \<^verbatim>\<open>_\<close> and \<^verbatim>\<open>$\<close>.
\<close>

definition identChar :: "char \<Rightarrow> bool" where
  "identChar c =
    (let n = (of_char c :: nat)
     in (48 \<le> n \<and> n \<le> 57) \<or> (65 \<le> n \<and> n \<le> 90) \<or> (97 \<le> n \<and> n \<le> 122) \<or> n = 95 \<or> n = 36)"

definition maybeBuiltinName :: "string \<Rightarrow> bool" where
  "maybeBuiltinName key = (key \<noteq> [] \<and> list_all identChar key)"

text \<open>Truthiness of a property read (\<^verbatim>\<open>!current[segment]\<close>); a missing property is \<^verbatim>\<open>undefined\<close>.\<close>

fun truthy :: "jvalue option \<Rightarrow> bool" where
  "truthy None = False"
| "truthy (Some (JNum x)) = (x \<noteq> 0)"
| "truthy (Some (JStr s)) = (s \<noteq> [])"
| "truthy (Some (JBool b)) = b"
| "truthy (Some (JObj kvs)) = True"

text \<open>
  \<^verbatim>\<open>current[key] = v\<close> for a primitive value \<open>v\<close>. On an object it creates or overwrites
  the own property; only \<^verbatim>\<open>__proto__\<close> is an inherited setter, which ignores a primitive. The
  module is in strict mode, where creating a property on a number, a string or a boolean
  throws \<^verbatim>\<open>TypeError\<close>.
\<close>

fun setProp :: "jvalue \<Rightarrow> string \<Rightarrow> jvalue \<Rightarrow> jserror + jvalue" where
  "setProp (JObj kvs) key v =
    (if key = ''__proto__'' then Inr (JObj kvs) else Inr (JObj (mapSet kvs key v)))"
| "setProp current key v = (if key = ''__proto__'' then Inr current else Inl TypeError)"

text \<open>
  \<^verbatim>\<open>if (!current[key]) current[key] = {}; current = current[key]\<close>, followed by the rest of
  the work on the new \<open>current\<close>, here the continuation \<open>k\<close>. The child is held by reference
  in the source, so what \<open>k\<close> makes of it is stored back under \<open>key\<close>. An own property is
  read first; a missing one that \<^verbatim>\<open>Object.prototype\<close> provides reads as a built-in value and
  leads outside the tree. On a number, a string or a boolean a key that no prototype can
  provide reads as \<^verbatim>\<open>undefined\<close>, and the assignment throws.
\<close>

fun enter :: "string \<Rightarrow> jvalue \<Rightarrow> (jvalue \<Rightarrow> jserror + jvalue) \<Rightarrow> jserror + jvalue" where
  "enter key (JObj kvs) k =
    (if mapGet kvs key = None \<and> key \<in> set objectPrototypeNames then Inl OutsideTree
     else
       (let child = (if \<not> truthy (mapGet kvs key) then JObj []
                     else (case mapGet kvs key of None \<Rightarrow> JObj [] | Some c \<Rightarrow> c))
        in case k child of Inl e \<Rightarrow> Inl e | Inr child' \<Rightarrow> Inr (JObj (mapSet kvs key child'))))"
| "enter key current k = (if maybeBuiltinName key then Inl OutsideTree else Inl TypeError)"

subsection \<open>Walking a record's hierarchy\<close>

definition MAX_SEGMENT_DEPTH :: nat where
  "MAX_SEGMENT_DEPTH = 10"

text \<open>\<^verbatim>\<open>[level_1, ..., level_5].filter(Boolean).slice(0, MAX_SEGMENT_DEPTH)\<close>.\<close>

definition segmentsOf :: "SegmentRecord \<Rightarrow> string list" where
  "segmentsOf record =
    take MAX_SEGMENT_DEPTH
      (List.map_filter (\<lambda>l. case l of None \<Rightarrow> None | Some s \<Rightarrow> if s \<noteq> [] then Some s else None)
        [level_1 (segment_hierarchy record), level_2 (segment_hierarchy record),
         level_3 (segment_hierarchy record), level_4 (segment_hierarchy record),
         level_5 (segment_hierarchy record)])"

text \<open>
  The \<^verbatim>\<open>for (const segment of segments)\<close> loop with its \<open>depth\<close> counter: it breaks at the
  cap, descends on a non-empty label and skips any other.
\<close>

fun descend :: "string list \<Rightarrow> nat \<Rightarrow> jvalue \<Rightarrow> (jvalue \<Rightarrow> jserror + jvalue) \<Rightarrow> jserror + jvalue" where
  "descend [] depth current k = k current"
| "descend (segment # rest) depth current k =
    (if depth \<ge> MAX_SEGMENT_DEPTH then k current
     else if segment \<noteq> [] then enter segment current (\<lambda>child. descend rest (depth + 1) child k)
     else descend rest depth current k)"

subsection \<open>Writing the leaf\<close>

text \<open>\<^verbatim>\<open>for (const [year, value] of Object.entries(record.time_series))\<close>.\<close>

fun writeYears :: "(string \<times> real) list \<Rightarrow> jvalue \<Rightarrow> jserror + jvalue" where
  "writeYears [] current = Inr current"
| "writeYears ((year, v) # rest) current =
    (if year \<noteq> []
     then (case setProp current year (JNum v) of Inl e \<Rightarrow> Inl e | Inr c \<Rightarrow> writeYears rest c)
     else writeYears rest current)"

text \<open>
  \<^verbatim>\<open>if (record.cagr) current.CAGR = `${record.cagr}%`\<close>. The text of a number is the
  parameter \<open>fmt\<close> (JavaScript's number-to-string conversion).
\<close>

definition writeCagr :: "(real \<Rightarrow> string) \<Rightarrow> SegmentRecord \<Rightarrow> jvalue \<Rightarrow> jserror + jvalue" where
  "writeCagr fmt record current =
    (case cagr record of
       None \<Rightarrow> Inr current
     | Some c \<Rightarrow> if c \<noteq> 0 then setProp current ''CAGR'' (JStr (fmt c @ ''%'')) else Inr current)"

text \<open>
  \<^verbatim>\<open>if (record.is_aggregated) { current._aggregated = true;
  if (record.aggregation_level !== null) current._level = record.aggregation_level }\<close>.
  An \<^verbatim>\<open>undefined\<close> level would be stored as \<^verbatim>\<open>undefined\<close>, which the JSON text drops; it is
  modelled like \<^verbatim>\<open>null\<close>.
\<close>

definition writeAggregated :: "SegmentRecord \<Rightarrow> jvalue \<Rightarrow> jserror + jvalue" where
  "writeAggregated record current =
    (if is_aggregated record = Some True
     then (case setProp current ''_aggregated'' (JBool True) of
             Inl e \<Rightarrow> Inl e
           | Inr c \<Rightarrow> (case aggregation_level record of
                         None \<Rightarrow> Inr c
                       | Some l \<Rightarrow> setProp c ''_level'' (JNum (real_of_int l))))
     else Inr current)"

subsection \<open>The two exports\<close>

text \<open>What the value export writes at the node reached: years, CAGR, aggregation marker.\<close>

definition valueLeaf :: "(real \<Rightarrow> string) \<Rightarrow> SegmentRecord \<Rightarrow> jvalue \<Rightarrow> jserror + jvalue" where
  "valueLeaf fmt record current =
    (case writeYears (time_series record) current of
       Inl e \<Rightarrow> Inl e
     | Inr c1 \<Rightarrow> (case writeCagr fmt record c1 of
                    Inl e \<Rightarrow> Inl e
                  | Inr c2 \<Rightarrow> writeAggregated record c2))"

text \<open>What the volume export writes at the node reached: years and CAGR.\<close>

definition volumeLeaf :: "(real \<Rightarrow> string) \<Rightarrow> SegmentRecord \<Rightarrow> jvalue \<Rightarrow> jserror + jvalue" where
  "volumeLeaf fmt record current =
    (case writeYears (time_series record) current of
       Inl e \<Rightarrow> Inl e
     | Inr c1 \<Rightarrow> writeCagr fmt record c1)"

text \<open>The body of the loop over the value records.\<close>

definition valueRecord :: "(real \<Rightarrow> string) \<Rightarrow> SegmentRecord \<Rightarrow> jvalue \<Rightarrow> jserror + jvalue" where
  "valueRecord fmt record result =
    enter (geography record) result (\<lambda>g.
      enter (segment_type record) g (\<lambda>t.
        descend (segmentsOf record) 0 t (valueLeaf fmt record)))"

text \<open>The body of the loop over the volume records.\<close>

definition volumeRecord :: "(real \<Rightarrow> string) \<Rightarrow> SegmentRecord \<Rightarrow> jvalue \<Rightarrow> jserror + jvalue" where
  "volumeRecord fmt record result =
    enter (geography record) result (\<lambda>g.
      enter (segment_type record) g (\<lambda>t.
        descend (segmentsOf record) 0 t (volumeLeaf fmt record)))"

fun forRecords :: "(SegmentRecord \<Rightarrow> jvalue \<Rightarrow> jserror + jvalue) \<Rightarrow> SegmentRecord list \<Rightarrow> jvalue
    \<Rightarrow> jserror + jvalue" where
  "forRecords body [] result = Inr result"
| "forRecords body (record # rest) result =
    (case body record result of Inl e \<Rightarrow> Inl e | Inr result' \<Rightarrow> forRecords body rest result')"

definition extractValueData :: "(real \<Rightarrow> string) \<Rightarrow> ComparisonData \<Rightarrow> jserror + jvalue" where
  "extractValueData fmt d = forRecords (valueRecord fmt) (value_matrix d) (JObj [])"

definition extractVolumeData :: "(real \<Rightarrow> string) \<Rightarrow> ComparisonData \<Rightarrow> jserror + jvalue" where
  "extractVolumeData fmt d =
    (case volume_matrix d of
       None \<Rightarrow> Inr (JObj [])
     | Some recs \<Rightarrow> forRecords (volumeRecord fmt) recs (JObj []))"

text \<open>Reading a property, and reading along a path of keys.\<close>

fun jget :: "jvalue \<Rightarrow> string \<Rightarrow> jvalue option" where
  "jget (JObj kvs) key = mapGet kvs key"
| "jget _ key = None"

fun getPath :: "string list \<Rightarrow> jvalue \<Rightarrow> jvalue option" where
  "getPath [] v = Some v"
| "getPath (key # keys) v = (case jget v key of None \<Rightarrow> None | Some c \<Rightarrow> getPath keys c)"


subsection \<open>The structural variant\<close>

text \<open>The segmentation tree holds objects only.\<close>

datatype snode = SNode "(string \<times> snode) list"

definition MAX_HIERARCHY_DEPTH :: nat where
  "MAX_HIERARCHY_DEPTH = 20"

fun children :: "snode \<Rightarrow> (string \<times> snode) list" where
  "children (SNode kvs) = kvs"

text \<open>\<^verbatim>\<open>hierarchy[item]\<close> when it is a non-empty array, else nothing.\<close>

definition childItems :: "(string \<times> string list) list \<Rightarrow> string \<Rightarrow> string list" where
  "childItems hier item = (case mapGet hier item of None \<Rightarrow> [] | Some cs \<Rightarrow> cs)"

text \<open>
  \<^verbatim>\<open>buildHierarchy(items, hierarchy, parent, level, path)\<close> with the set \<open>visitedItems\<close> of the
  enclosing scope passed in and handed back. The loop over \<open>items\<close> is the \<open>fold\<close>; the
  state of the loop is the parent node and the set.
\<close>

function buildHierarchy :: "(string \<times> string list) list \<Rightarrow> string list \<Rightarrow> snode \<Rightarrow> nat \<Rightarrow> string
    \<Rightarrow> string set \<Rightarrow> snode \<times> string set" where
  "buildHierarchy hier its parent level path visitedItems =
    (if level > MAX_HIERARCHY_DEPTH then (parent, visitedItems)
     else fold (\<lambda>item (par, visited).
            let itemPath = (if path \<noteq> [] then path @ '' > '' @ item else item)
            in if itemPath \<in> visited then (par, visited)
               else
                 (let par1 = (if \<not> mapHas (children par) item
                              then SNode (mapSet (children par) item (SNode [])) else par)
                  in if length (childItems hier item) > 0
                     then (let sub = buildHierarchy hier (childItems hier item)
                                       (case mapGet (children par1) item of None \<Rightarrow> SNode [] | Some c \<Rightarrow> c)
                                       (level + 1) itemPath (insert itemPath visited)
                           in (SNode (mapSet (children par1) item (fst sub)), snd sub - {itemPath}))
                     else (par1, visited)))
          its (parent, visitedItems))"
  by pat_completeness auto
termination
  by (relation "measure (\<lambda>(hier, its, parent, level, path, visitedItems). Suc MAX_HIERARCHY_DEPTH - level)")
     auto

text \<open>
  \<^verbatim>\<open>items.filter(item => !Object.values(hierarchy).some(children => children.includes(item)))\<close>.
\<close>

definition topLevel :: "string list \<Rightarrow> (string \<times> string list) list \<Rightarrow> string list" where
  "topLevel its hier = filter (\<lambda>item. \<not> list_ex (\<lambda>cs. item \<in> set cs) (map snd hier)) its"

text \<open>The tree of one segment dimension.\<close>

definition segmentTree :: "SegmentDimension \<Rightarrow> snode" where
  "segmentTree segmentDim =
    (case (items segmentDim, hierarchy segmentDim) of
       (Some its, Some hier) \<Rightarrow> fst (buildHierarchy hier (topLevel its hier) (SNode []) 0 [] {})
     | _ \<Rightarrow> SNode [])"

text \<open>\<^verbatim>\<open>result[geo] = {}\<close>, then \<^verbatim>\<open>result[geo][segmentType] = {}\<close> and its hierarchy.\<close>

definition extractSegmentationData :: "ComparisonData \<Rightarrow> (string \<times> (string \<times> snode) list) list" where
  "extractSegmentationData d =
    fold (\<lambda>geo result.
           mapSet result geo
             (fold (\<lambda>(segmentType, segmentDim) g. mapSet g segmentType (segmentTree segmentDim))
                   (segments d) []))
         (all_geographies d) []"

section \<open>Example inputs\<close>

text \<open>A record without hierarchy labels and without a CAGR.\<close>

definition mkRecord :: "string \<Rightarrow> string \<Rightarrow> (string \<times> real) list \<Rightarrow> bool option \<Rightarrow> int option
    \<Rightarrow> SegmentRecord" where
  "mkRecord g t ts a l = \<lparr> geography = g, segment_type = t,
    segment_hierarchy = \<lparr>level_1 = None, level_2 = None, level_3 = None, level_4 = None, level_5 = None\<rparr>,
    time_series = ts, cagr = None, is_aggregated = a, aggregation_level = l \<rparr>"

definition mkData :: "SegmentRecord list \<Rightarrow> SegmentRecord list option \<Rightarrow> ComparisonData" where
  "mkData val vol = \<lparr> all_geographies = [], segments = [], value_matrix = val, volume_matrix = vol,
     metadata_currency = None, value_unit = None, volume_unit = None \<rparr>"

definition mkFilters :: "string list \<Rightarrow> string \<Rightarrow> string \<Rightarrow> Filters" where
  "mkFilters gs t vm = \<lparr> geographies = gs, segmentType = Some t, dataType = ''value'',
     yearRange = None, viewMode = vm \<rparr>"

text \<open>The growth percentage as the specification words it: 0 only when the start is 0.\<close>

definition growthPercentage_spec :: "real \<Rightarrow> real \<Rightarrow> real" where
  "growthPercentage_spec mStart mEnd = (if mStart = 0 then 0 else (mEnd - mStart) / mStart * 100)"

text \<open>A dimension whose hierarchy has the cycle A, B, A below the root R.\<close>

definition cyclicDimension :: SegmentDimension where
  "cyclicDimension = \<lparr> items = Some [''R'', ''A'', ''B''],
     hierarchy = Some [(''R'', [''A'']), (''A'', [''B'']), (''B'', [''A''])] \<rparr>"

text \<open>Reading along a path of labels in a segmentation tree.\<close>

fun snodePath :: "string list \<Rightarrow> snode \<Rightarrow> snode option" where
  "snodePath [] n = Some n"
| "snodePath (k # ks) n = (case mapGet (children n) k of None \<Rightarrow> None | Some c \<Rightarrow> snodePath ks c)"

text \<open>A number-to-string conversion for whole numbers, for the examples.\<close>

definition fmtWhole :: "real \<Rightarrow> string" where
  "fmtWhole x = String_of_int \<lfloor>x\<rfloor>"

text \<open>An aggregated record with hierarchy labels, an empty label among them, and a CAGR of 0.\<close>

definition deepRecord :: SegmentRecord where
  "deepRecord = (mkRecord ''US'' ''T'' [(''2024'', 5)] (Some True) (Some 2))
     \<lparr> segment_hierarchy := \<lparr>level_1 = Some ''a'', level_2 = Some ''b'', level_3 = None,
          level_4 = Some [], level_5 = Some ''e''\<rparr>, cagr := Some 0 \<rparr>"

section \<open>Notions used in the statements\<close>

text \<open>The distinct elements of a list in the order of their first occurrence.\<close>

fun firsts :: "'a list \<Rightarrow> 'a list" where
  "firsts [] = []"
| "firsts (x # xs) = x # removeAll x (firsts xs)"

text \<open>
  The records of geography \<open>g\<close> whose segment type is that of the first record of \<open>g\<close>.
\<close>

definition chosenFor :: "string \<Rightarrow> SegmentRecord list \<Rightarrow> SegmentRecord list" where
  "chosenFor g recs =
    (case List.find (\<lambda>r. geography r = g) recs of
       None \<Rightarrow> []
     | Some r0 \<Rightarrow> filter (\<lambda>r. geography r = g \<and> segment_type r = segment_type r0) recs)"

text \<open>
  The three tiers of geography mode as the specification words them: leaf records, else the
  records of level 1, else the records at the minimum aggregation level present.
\<close>

definition recordsToUse_spec :: "SegmentRecord list \<Rightarrow> SegmentRecord list" where
  "recordsToUse_spec rs =
    (let leaf = filter (\<lambda>r. is_aggregated r \<noteq> Some True) rs;
         level1 = filter (\<lambda>r. aggregation_level r = Some 1) rs
     in if leaf \<noteq> [] then leaf
        else if level1 \<noteq> [] then level1
        else filter (\<lambda>r. aggregation_level r = Some (Math_min (List.map_filter aggregation_level rs))) rs)"

text \<open>The level as the de-duplication compares it: absent, 0 and anything above 999 count as 999.\<close>

definition cappedLevel :: "int option \<Rightarrow> int" where
  "cappedLevel l = min 999 (levelOr999 l)"

text \<open>
  The de-duplication as the specification words it: every kept record has the lowest
  aggregation level seen among the records of its (geography, segment type) pair.
\<close>

definition lowestLevelKept_spec :: "SegmentRecord list \<Rightarrow> SegmentRecord list \<Rightarrow> bool" where
  "lowestLevelKept_spec recs kept =
    list_all (\<lambda>e. list_all (\<lambda>r.
        if geography r = geography e \<and> segment_type r = segment_type e
        then (case aggregation_level r of
                None \<Rightarrow> True
              | Some lr \<Rightarrow> (case aggregation_level e of None \<Rightarrow> False | Some le \<Rightarrow> le \<le> lr))
        else True) recs) kept"


text \<open>
  The nested descent without a cap and without a counter: the keys are entered one after the
  other, then \<open>k\<close> goes on at the node reached.
\<close>

fun walk :: "string list \<Rightarrow> jvalue \<Rightarrow> (jvalue \<Rightarrow> jserror + jvalue) \<Rightarrow> jserror + jvalue" where
  "walk [] current k = k current"
| "walk (key # keys) current k = enter key current (\<lambda>child. walk keys child k)"


text \<open>The keys on the way from the root to the node of a record.\<close>

definition recordPath :: "SegmentRecord \<Rightarrow> string list" where
  "recordPath r = geography r # segment_type r # segmentsOf r"

text \<open>
  The year keys that a record writes at its node: the empty key is skipped by the loop, and
  an assignment to \<^verbatim>\<open>__proto__\<close> writes nothing.
\<close>

definition yearKeys :: "SegmentRecord \<Rightarrow> string list" where
  "yearKeys r = filter (\<lambda>year. year \<noteq> [] \<and> year \<noteq> ''__proto__'') (map fst (time_series r))"

text \<open>The keys that the records of a list can write at their nodes.\<close>

definition leafKeys :: "SegmentRecord list \<Rightarrow> string list" where
  "leafKeys recs = [''CAGR'', ''_aggregated'', ''_level''] @ concat (map yearKeys recs)"

text \<open>
  No key on the way to the node of a record is a name inherited from \<^verbatim>\<open>Object.prototype\<close> or
  a key written at a node.
\<close>

definition plainPaths :: "SegmentRecord list \<Rightarrow> bool" where
  "plainPaths recs =
    list_all (\<lambda>r. list_all (\<lambda>key. key \<notin> set objectPrototypeNames \<and> key \<notin> set (leafKeys recs))
                            (recordPath r)) recs"

text \<open>
  What a record writes under the key CAGR of its node: the text of a truthy \<^verbatim>\<open>cagr\<close>, else
  the value of a year key named CAGR (the last one of the time series), else nothing.
\<close>

definition cagrWritten :: "(real \<Rightarrow> string) \<Rightarrow> SegmentRecord \<Rightarrow> jvalue option" where
  "cagrWritten fmt r =
    (case cagr r of
       None \<Rightarrow> map_option JNum (map_of (rev (time_series r)) ''CAGR'')
     | Some c \<Rightarrow> if c \<noteq> 0 then Some (JStr (fmt c @ ''%''))
                 else map_option JNum (map_of (rev (time_series r)) ''CAGR''))"

text \<open>The last value written under CAGR by the records of a list, if any.\<close>

definition cagrAt :: "(real \<Rightarrow> string) \<Rightarrow> SegmentRecord list \<Rightarrow> jvalue option" where
  "cagrAt fmt rs = fold (\<lambda>r old. case cagrWritten fmt r of None \<Rightarrow> old | Some v \<Rightarrow> Some v) rs None"

text \<open>An object whose entries, except those under the keys \<open>L\<close>, are such objects again.\<close>

fun objTree :: "string set \<Rightarrow> jvalue \<Rightarrow> bool" where
  "objTree L (JObj kvs) = (\<forall>kv \<in> set kvs. fst kv \<in> L \<or> objTree L (snd kv))"
| "objTree L _ = False"

text \<open>
  A record whose path keys are neither among the keys \<open>L\<close> nor inherited names, and whose year
  keys are among \<open>L\<close>.
\<close>

definition plainRecord :: "string set \<Rightarrow> SegmentRecord \<Rightarrow> bool" where
  "plainRecord L r =
    (set (recordPath r) \<inter> (L \<union> set objectPrototypeNames) = {} \<and> set (yearKeys r) \<subseteq> L)"

section \<open>Properties of the KPI aggregator\<close>

subsection \<open>Maps as association lists\<close>

lemma mapGet_mapSet: "mapGet (mapSet m k v) k' = (if k' = k then Some v else mapGet m k')"
  by (induction m) auto

lemma set_mapSet_subset: "set (mapSet m k v) \<subseteq> insert (k, v) (set m)"
  by (induction m) (auto split: if_splits)

lemma mapGet_Some_mem: "mapGet m k = Some v \<Longrightarrow> (k, v) \<in> set m"
  by (induction m) (auto split: if_splits)

subsection \<open>Evaluation and helper facts\<close>

lemmas kpi_eval = kpiData_def mkData_def mkRecord_def mkFilters_def targetSegmentType_def dataset_def isGeographyMode_def
   selectRecords_def leafRecords_def globalRecords_def leafRecordsNormal_def fallbackRecords_def geoMapValues_def
   actualStartYear_def actualEndYear_def availableYears_def filterYearRange_def List.map_filter_def parseIntAscii_def isWhite_def digitVal_def
   sumYear_def tsGet_def String_of_int_def digitChar_def growthPercentageOf_def cagrOf_def Math_pow_def geographyLabelOf_def orDefault_def

lemma Math_min_Min: "ys \<noteq> [] \<Longrightarrow> Math_min ys = Min (set ys)"
proof (cases ys)
  case (Cons x xs)
  then show ?thesis by (simp only: Math_min.simps Min.set_eq_fold)
qed simp

lemma sort_Nil_iff: "sort ys = [] \<longleftrightarrow> ys = []"
  by (metis length_sort length_0_conv)

lemma Math_max_Max: "ys \<noteq> [] \<Longrightarrow> Math_max ys = Max (set ys)"
proof (cases ys)
  case (Cons x xs)
  then show ?thesis by (simp only: Math_max.simps Max.set_eq_fold)
qed simp

lemma foldl_plus: "foldl (\<lambda>acc r. acc + g r) a recs = a + sum_list (map g recs)"
  by (induction recs arbitrary: a) (simp_all add: add.assoc)

lemma sumYear_sum_list: "sumYear recs y = (\<Sum>r\<leftarrow>recs. tsGet (time_series r) y)"
  by (simp add: sumYear_def foldl_plus)

lemma geoMapValues_Nil: "geoMapValues [] = []"
  by (simp add: geoMapValues_def)

lemma Math_pow_root:
  assumes "years > 0"
  shows "Math_pow x (1 / real_of_int years) =
    (if x \<ge> 0 then Some (x powr (1 / real_of_int years))
     else if years = 1 then Some x else None)"
proof -
  have y0: "1 / real_of_int years \<noteq> 0" "1 / real_of_int years > 0"
    using assms by simp_all
  show ?thesis
  proof (cases "x < 0")
    case False
    then show ?thesis using y0 by (simp add: Math_pow_def)
  next
    case True
    show ?thesis
    proof (cases "years = 1")
      case True
      with \<open>x < 0\<close> show ?thesis by (simp add: Math_pow_def)
    next
      case False
      with assms have "years \<ge> 2" by simp
      then have "1 / real_of_int years \<le> 1 / 2"
        by (simp add: field_simps)
      with y0 have "\<lfloor>1 / real_of_int years\<rfloor> = 0"
        by (simp add: floor_eq_iff)
      with y0 \<open>x < 0\<close> False show ?thesis by (simp add: Math_pow_def)
    qed
  qed
qed

lemma cagrOf_pos:
  "cagrOf mStart mEnd years =
    (if mStart > 0 \<and> years > 0
     then (if mEnd \<ge> 0 then Some (((mEnd / mStart) powr (1 / real_of_int years) - 1) * 100)
           else if years = 1 then Some ((mEnd / mStart - 1) * 100)
           else None)
     else Some 0)"
  by (simp add: cagrOf_def Math_pow_root zero_le_divide_iff not_le divide_neg_pos)

lemma selectRecords_Nil: "fst (selectRecords sel gm target []) = []"
  by (simp add: selectRecords_def leafRecords_def globalRecords_def leafRecordsNormal_def
      fallbackRecords_def geoMapValues_Nil Let_def)

text \<open>
  C6 (as amended). When at least one record is selected, a summary is returned. Its start and
  end year are the least and the greatest integer parsed from the year keys of the first
  selected record, or the bounds of the filter's year range if no key parses. The market
  sizes are the sums over the selected records at these years. The CAGR is
  \<open>((end / start) ** (1 / (endYear - startYear)) - 1) * 100\<close> when the start size is positive
  and the end year is later than the start year, else 0; the power is that of the language:
  for an end size below 0 it is the quotient itself over one year and \<^verbatim>\<open>NaN\<close> over more. The
  absolute growth is the difference; the growth percentage is \<open>absoluteGrowth / start * 100\<close>
  when the start size is positive, else 0. The sizes may have any sign, and \<open>parseInt\<close> is
  any function.
\<close>

theorem growth_figures:
  assumes t: "targetSegmentType d f = Some target"
    and ds: "dataset d f = Some ds"
    and recs: "recs = fst (selectRecords (geographies f) (isGeographyMode f) target ds)"
    and ne: "recs \<noteq> []"
    and ys: "ys = List.map_filter parseInt (map fst (time_series (hd recs)))"
  shows "\<exists>k. kpiData parseInt (Some d) f cur = Some k
      \<and> startYear k = (if ys \<noteq> [] then Min (set ys) else fst (filterYearRange f))
      \<and> endYear k = (if ys \<noteq> [] then Max (set ys) else snd (filterYearRange f))
      \<and> marketSizeStart k = (\<Sum>r\<leftarrow>recs. tsGet (time_series r) (startYear k))
      \<and> marketSizeEnd k = (\<Sum>r\<leftarrow>recs. tsGet (time_series r) (endYear k))
      \<and> cagr_kpi k =
          (if marketSizeStart k > 0 \<and> endYear k > startYear k
           then (if marketSizeEnd k \<ge> 0
                 then Some (((marketSizeEnd k / marketSizeStart k)
                              powr (1 / real_of_int (endYear k - startYear k)) - 1) * 100)
                 else if endYear k - startYear k = 1
                 then Some ((marketSizeEnd k / marketSizeStart k - 1) * 100)
                 else None)
           else Some 0)
      \<and> absoluteGrowth k = marketSizeEnd k - marketSizeStart k
      \<and> growthPercentage k = (if marketSizeStart k > 0 then absoluteGrowth k / marketSizeStart k * 100 else 0)"
proof -
  from ne recs have dsne: "ds \<noteq> []"
    using selectRecords_Nil by auto
  obtain r rest where rr: "recs = r # rest"
    using ne by (cases recs) auto
  have g: "(if length (geographies f) > 0 then geographies f else []) = geographies f"
    by simp
  have ay: "availableYears parseInt (time_series r) = sort ys"
    using ys rr by (simp add: availableYears_def)
  have sy: "actualStartYear parseInt f recs = (if ys \<noteq> [] then Min (set ys) else fst (filterYearRange f))"
    using Math_min_Min [of "sort ys"] by (auto simp: actualStartYear_def rr ay Let_def sort_Nil_iff)
  have ey: "actualEndYear parseInt f recs = (if ys \<noteq> [] then Max (set ys) else snd (filterYearRange f))"
    using Math_max_Max [of "sort ys"] by (auto simp: actualEndYear_def rr ay Let_def sort_Nil_iff)
  show ?thesis
    unfolding kpiData_def g
    using ne dsne
    by (simp add: t ds recs [symmetric] Let_def sy [symmetric] ey [symmetric] sumYear_sum_list
        cagrOf_pos growthPercentageOf_def)
qed

theorem growth_figures_witness:
  "\<exists>k. kpiData parseIntAscii
          (Some (mkData [mkRecord ''US'' ''T'' [(''2024'', 50), (''2025'', - 100)] (Some False) None] None))
          (mkFilters [] ''T'' ''segment-mode'') None = Some k
     \<and> startYear k = 2024 \<and> endYear k = 2025 \<and> marketSizeStart k = 50 \<and> marketSizeEnd k = - 100
     \<and> cagr_kpi k = Some (- 300) \<and> absoluteGrowth k = - 150 \<and> growthPercentage k = - 300"
  using growth_figures [of "mkData [mkRecord ''US'' ''T'' [(''2024'', 50), (''2025'', - 100)] (Some False) None] None"
      "mkFilters [] ''T'' ''segment-mode''" "''T''"
      "[mkRecord ''US'' ''T'' [(''2024'', 50), (''2025'', - 100)] (Some False) None]"
      "[mkRecord ''US'' ''T'' [(''2024'', 50), (''2025'', - 100)] (Some False) None]"
      "[2024, 2025]" parseIntAscii None]
  by (simp add: kpi_eval)

text \<open>
  C6 as stated fails for a negative start size: the sums are -50 and 100, the code reports a
  growth percentage of 0, and the stated formula (0 only when the start size is 0) gives -300.
\<close>

theorem growth_percentage_negative_start:
  "map_option marketSizeStart
     (kpiData parseIntAscii (Some (mkData [mkRecord ''US'' ''T'' [(''2024'', - 50), (''2025'', 100)] (Some False) None] None))
        (mkFilters [] ''T'' ''segment-mode'') None) = Some (- 50)
   \<and> map_option marketSizeEnd
     (kpiData parseIntAscii (Some (mkData [mkRecord ''US'' ''T'' [(''2024'', - 50), (''2025'', 100)] (Some False) None] None))
        (mkFilters [] ''T'' ''segment-mode'') None) = Some 100
   \<and> map_option growthPercentage
     (kpiData parseIntAscii (Some (mkData [mkRecord ''US'' ''T'' [(''2024'', - 50), (''2025'', 100)] (Some False) None] None))
        (mkFilters [] ''T'' ''segment-mode'') None) = Some 0
   \<and> growthPercentage_spec (- 50) 100 = - 300"
  by (simp add: kpi_eval growthPercentage_spec_def)

text \<open>
  C7 (as amended). No summary is built from zero records: the result is null when the data is
  absent, when the chosen dataset is absent or empty, when no segment type can be determined,
  when, outside geography mode, no record of the dataset has the target segment type, and in
  general whenever the selection (fallback included) is empty.
\<close>

theorem no_data_gives_null:
  "kpiData parseInt None f cur = None
   \<and> (dataset d f = None \<or> dataset d f = Some [] \<longrightarrow> kpiData parseInt (Some d) f cur = None)
   \<and> (targetSegmentType d f = None \<longrightarrow> kpiData parseInt (Some d) f cur = None)
   \<and> (\<not> isGeographyMode f \<and> targetSegmentType d f = Some target \<and> dataset d f = Some ds
        \<and> (\<forall>r \<in> set ds. segment_type r \<noteq> target) \<longrightarrow> kpiData parseInt (Some d) f cur = None)
   \<and> (targetSegmentType d f = Some target \<and> dataset d f = Some ds
        \<and> fst (selectRecords (geographies f) (isGeographyMode f) target ds) = []
        \<longrightarrow> kpiData parseInt (Some d) f cur = None)"
proof -
  have g: "(if length (geographies f) > 0 then geographies f else []) = geographies f"
    by simp
  have a: "kpiData parseInt None f cur = None"
    by (simp add: kpiData_def)
  have b: "dataset d f = None \<or> dataset d f = Some [] \<longrightarrow> kpiData parseInt (Some d) f cur = None"
    by (auto simp: kpiData_def split: option.splits)
  have c: "targetSegmentType d f = None \<longrightarrow> kpiData parseInt (Some d) f cur = None"
    by (simp add: kpiData_def)
  have e: "targetSegmentType d f = Some target \<and> dataset d f = Some ds
        \<and> fst (selectRecords (geographies f) (isGeographyMode f) target ds) = []
        \<longrightarrow> kpiData parseInt (Some d) f cur = None"
    unfolding kpiData_def g by (simp add: Let_def)
  have sel: "\<forall>r \<in> set ds. segment_type r \<noteq> target \<Longrightarrow> target \<noteq> []
      \<Longrightarrow> fst (selectRecords sel False target ds) = []" for sel
    by (simp add: selectRecords_def leafRecords_def globalRecords_def leafRecordsNormal_def
        fallbackRecords_def geoMapValues_Nil Let_def filter_empty_conv)
  have tne: "targetSegmentType d f = Some target \<Longrightarrow> target \<noteq> []"
    by (auto simp: targetSegmentType_def Let_def split: if_splits list.splits option.splits)
  have dd: "\<not> isGeographyMode f \<and> targetSegmentType d f = Some target \<and> dataset d f = Some ds
        \<and> (\<forall>r \<in> set ds. segment_type r \<noteq> target) \<longrightarrow> kpiData parseInt (Some d) f cur = None"
    using e sel tne by auto
  from a b c dd e show ?thesis by blast
qed

theorem no_data_gives_null_witness:
  "kpiData parseIntAscii (Some (mkData [mkRecord ''US'' ''T'' [(''2024'', 100)] (Some False) None] None))
     (mkFilters [] ''X'' ''segment-mode'') None = None"
proof -
  let ?d = "mkData [mkRecord ''US'' ''T'' [(''2024'', 100)] (Some False) None] None"
  let ?f = "mkFilters [] ''X'' ''segment-mode''"
  have h: "\<not> isGeographyMode ?f \<and> targetSegmentType ?d ?f = Some ''X''
      \<and> dataset ?d ?f = Some [mkRecord ''US'' ''T'' [(''2024'', 100)] (Some False) None]
      \<and> (\<forall>r \<in> set [mkRecord ''US'' ''T'' [(''2024'', 100)] (Some False) None]. segment_type r \<noteq> ''X'')"
    by (simp add: isGeographyMode_def targetSegmentType_def dataset_def mkData_def mkFilters_def mkRecord_def)
  from no_data_gives_null [of parseIntAscii ?f None ?d "''X''" "[mkRecord ''US'' ''T'' [(''2024'', 100)] (Some False) None]"] h
  show ?thesis by blast
qed

text \<open>
  C7 as stated fails in geography mode, which does not filter by segment type: the selected
  segment type X is absent from the data, and a summary over the record of type T is returned.
\<close>

theorem absent_segment_type_geography_mode:
  "segment_type (mkRecord ''US'' ''T'' [(''2024'', 100)] (Some False) None) \<noteq> ''X''
   \<and> map_option marketSizeStart
       (kpiData parseIntAscii (Some (mkData [mkRecord ''US'' ''T'' [(''2024'', 100)] (Some False) None] None))
          (mkFilters [] ''X'' ''geography-mode'') None) = Some 100
   \<and> map_option segmentTypeLabel
       (kpiData parseIntAscii (Some (mkData [mkRecord ''US'' ''T'' [(''2024'', 100)] (Some False) None] None))
          (mkFilters [] ''X'' ''geography-mode'') None) = Some ''X''"
  by (simp add: kpi_eval deduplicatedRecords_def recordsByGeography_def groupPush_def
      firstSegTypeRecords_def bySegmentType_def recordsToUse_def)




subsection \<open>Grouping in geography mode\<close>

lemma set_firsts [simp]: "set (firsts xs) = set xs"
  by (induction xs) auto

lemma distinct_firsts [simp]: "distinct (firsts xs)"
  by (induction xs) (auto simp: distinct_removeAll)

lemma firsts_snoc: "firsts (xs @ [y]) = (if y \<in> set xs then firsts xs else firsts xs @ [y])"
  by (induction xs) auto

lemma mapHas_keys: "mapHas m k \<longleftrightarrow> k \<in> fst ` set m"
  by (induction m) auto

lemma mapGet_None_keys: "mapGet m k = None \<longleftrightarrow> k \<notin> fst ` set m"
  by (induction m) (auto simp: image_iff split: if_splits)

lemma mapSet_mapSet: "mapSet (mapSet m k v) k w = mapSet m k w"
  by (induction m) auto

lemma mapSet_new: "k \<notin> fst ` set m \<Longrightarrow> mapSet m k v = m @ [(k, v)]"
  by (induction m) (auto simp: image_iff)

lemma map_fst_mapSet:
  "map fst (mapSet m k v) = (if k \<in> fst ` set m then map fst m else map fst m @ [k])"
  by (induction m) (auto simp: image_iff split: if_splits)

lemma mem_mapSet:
  "distinct (map fst m) \<Longrightarrow>
     (k', e') \<in> set (mapSet m k v) \<longleftrightarrow> (k' = k \<and> e' = v) \<or> (k' \<noteq> k \<and> (k', e') \<in> set m)"
proof (induction m)
  case Nil
  then show ?case by auto
next
  case (Cons p m)
  obtain a b where p: "p = (a, b)" by (cases p)
  from Cons.prems p have d: "distinct (map fst m)" and a: "\<And>e. (a, e) \<notin> set m"
    by force+
  show ?case
  proof (cases "a = k")
    case True
    with a have "\<And>e. (k, e) \<notin> set m" by simp
    with True p show ?thesis by (simp, blast)
  next
    case False
    from Cons.IH [OF d] False p show ?thesis by (simp, blast)
  qed
qed

lemma mapSet_tabulate:
  assumes "distinct ks" "k \<in> set ks"
  shows "mapSet (map (\<lambda>x. (x, F x)) ks) k v = map (\<lambda>x. (x, if x = k then v else F x)) ks"
  using assms by (induction ks) auto

lemma mapGet_tabulate: "mapGet (map (\<lambda>x. (x, F x)) ks) k = (if k \<in> set ks then Some (F k) else None)"
  by (induction ks) auto

lemma groupPush_new:
  assumes "k \<notin> fst ` set m"
  shows "groupPush m k r = m @ [(k, [r])]"
proof -
  from assms have "\<not> mapHas m k" by (simp add: mapHas_keys)
  then have "groupPush m k r = mapSet (mapSet m k []) k [r]"
    by (simp add: groupPush_def mapGet_mapSet)
  also have "\<dots> = mapSet m k [r]"
    by (rule mapSet_mapSet)
  also have "\<dots> = m @ [(k, [r])]"
    using assms by (rule mapSet_new)
  finally show ?thesis .
qed

lemma groupPush_tabulate:
  assumes "distinct ks"
  shows "groupPush (map (\<lambda>x. (x, F x)) ks) k r =
     (if k \<in> set ks then map (\<lambda>x. (x, if x = k then F x @ [r] else F x)) ks
      else map (\<lambda>x. (x, F x)) ks @ [(k, [r])])"
proof (cases "k \<in> set ks")
  case True
  then have "mapHas (map (\<lambda>x. (x, F x)) ks) k" by (simp add: mapHas_keys image_image)
  with True assms show ?thesis
    by (simp add: groupPush_def mapGet_tabulate mapSet_tabulate)
next
  case False
  then have "k \<notin> fst ` set (map (\<lambda>x. (x, F x)) ks)"
    by (simp add: image_image)
  from groupPush_new [OF this] False show ?thesis by simp
qed

lemma group_fold:
  "fold (\<lambda>r m. groupPush m (key r) r) recs []
     = map (\<lambda>k. (k, filter (\<lambda>r. key r = k) recs)) (firsts (map key recs))"
proof (induction recs rule: rev_induct)
  case Nil
  then show ?case by simp
next
  case (snoc r recs)
  define F where "F = (\<lambda>k. filter (\<lambda>x. key x = k) recs)"
  define ks where "ks = firsts (map key recs)"
  have ks: "distinct ks" "set ks = key ` set recs"
    by (simp_all add: ks_def)
  have step: "fold (\<lambda>r m. groupPush m (key r) r) (recs @ [r]) []
      = groupPush (map (\<lambda>k. (k, F k)) ks) (key r) r"
    using snoc by (simp add: F_def ks_def)
  have filt: "filter (\<lambda>x. key x = k) (recs @ [r]) = (if k = key r then F k @ [r] else F k)" for k
    by (auto simp: F_def)
  show ?case
  proof (cases "key r \<in> set ks")
    case True
    then have "firsts (map key (recs @ [r])) = ks"
      using ks by (simp add: firsts_snoc ks_def)
    moreover have "groupPush (map (\<lambda>k. (k, F k)) ks) (key r) r
        = map (\<lambda>x. (x, if x = key r then F x @ [r] else F x)) ks"
      using True ks(1) by (simp add: groupPush_tabulate)
    ultimately show ?thesis
      unfolding step by (simp only: filt)
  next
    case False
    have e: "filter (\<lambda>x. key x = key r) recs = []"
      unfolding filter_empty_conv
    proof
      fix x assume x: "x \<in> set recs"
      then have "key x \<in> key ` set recs" by (rule imageI)
      with False ks(2) show "\<not> key x = key r" by auto
    qed
    from False have f: "firsts (map key (recs @ [r])) = ks @ [key r]"
      using ks by (simp add: firsts_snoc ks_def)
    have g: "groupPush (map (\<lambda>k. (k, F k)) ks) (key r) r
        = map (\<lambda>k. (k, F k)) ks @ [(key r, [r])]"
      using False ks(1) by (simp add: groupPush_tabulate)
    have a: "map (\<lambda>k. (k, filter (\<lambda>x. key x = k) (recs @ [r]))) ks = map (\<lambda>k. (k, F k)) ks"
    proof (rule map_cong [OF refl])
      fix k assume "k \<in> set ks"
      with False have "k \<noteq> key r" by auto
      then show "(k, filter (\<lambda>x. key x = k) (recs @ [r])) = (k, F k)"
        by (simp only: filt if_False)
    qed
    have b: "filter (\<lambda>x. key x = key r) (recs @ [r]) = [r]"
      using e by simp
    show ?thesis
      unfolding step f g by (simp only: map_append a b list.map)
  qed
qed


lemma find_filter: "List.find P xs = (case filter P xs of [] \<Rightarrow> None | x # _ \<Rightarrow> Some x)"
  by (induction xs) auto

lemma recordsByGeography_eq:
  "recordsByGeography recs
     = map (\<lambda>g. (g, filter (\<lambda>r. geography r = g) recs)) (firsts (map geography recs))"
  unfolding recordsByGeography_def by (rule group_fold)

lemma firstSegTypeRecords_eq:
  "firstSegTypeRecords xs
     = (case xs of [] \<Rightarrow> [] | r0 # _ \<Rightarrow> filter (\<lambda>x. segment_type x = segment_type r0) xs)"
proof (cases xs)
  case Nil
  then show ?thesis by (simp add: firstSegTypeRecords_def bySegmentType_def)
next
  case (Cons r0 rest)
  have "bySegmentType xs
      = map (\<lambda>t. (t, filter (\<lambda>r. segment_type r = t) xs)) (firsts (map segment_type xs))"
    unfolding bySegmentType_def by (rule group_fold)
  with Cons show ?thesis by (simp add: firstSegTypeRecords_def)
qed

lemma firstSegTypeRecords_chosenFor:
  "firstSegTypeRecords (filter (\<lambda>r. geography r = g) recs) = chosenFor g recs"
proof (cases "filter (\<lambda>r. geography r = g) recs")
  case Nil
  then show ?thesis by (simp add: firstSegTypeRecords_eq chosenFor_def find_filter)
next
  case (Cons r0 rest)
  have "filter (\<lambda>x. segment_type x = segment_type r0) (filter (\<lambda>r. geography r = g) recs)
      = filter (\<lambda>r. geography r = g \<and> segment_type r = segment_type r0) recs"
    by simp
  with Cons show ?thesis
    by (simp only: firstSegTypeRecords_eq chosenFor_def find_filter list.case option.case)
qed

lemma deduplicatedRecords_eq:
  "deduplicatedRecords recs
     = concat (map (\<lambda>g. recordsToUse (chosenFor g recs)) (firsts (map geography recs)))"
  by (simp add: deduplicatedRecords_def recordsByGeography_eq comp_def firstSegTypeRecords_chosenFor)

lemma recordsToUse_tiers:
  "recordsToUse rs =
    (if \<exists>r \<in> set rs. is_aggregated r \<noteq> Some True
       then filter (\<lambda>r. is_aggregated r \<noteq> Some True) rs
     else if \<exists>r \<in> set rs. aggregation_level r = Some 1
       then filter (\<lambda>r. aggregation_level r = Some 1) rs
     else filter (\<lambda>r. levelOr999 (aggregation_level r)
                      = Min ((\<lambda>r. levelOr999 (aggregation_level r)) ` set rs)) rs)"
proof (cases "rs = []")
  case True
  then show ?thesis by (simp add: recordsToUse_def)
next
  case False
  then have m: "Math_min (map (\<lambda>r. levelOr999 (aggregation_level r)) rs)
      = Min ((\<lambda>r. levelOr999 (aggregation_level r)) ` set rs)"
    using Math_min_Min [of "map (\<lambda>r. levelOr999 (aggregation_level r)) rs"] by simp
  show ?thesis
  proof (cases "\<exists>r \<in> set rs. is_aggregated r \<noteq> Some True")
    case leaf: True
    then have "filter (\<lambda>r. is_aggregated r \<noteq> Some True) rs \<noteq> []"
      by (simp add: filter_empty_conv)
    with leaf show ?thesis
      by (simp add: recordsToUse_def Let_def)
  next
    case noleaf: False
    then have l0: "filter (\<lambda>r. is_aggregated r \<noteq> Some True) rs = []"
      by (simp add: filter_empty_conv)
    show ?thesis
    proof (cases "\<exists>r \<in> set rs. aggregation_level r = Some 1")
      case True
      then have "filter (\<lambda>r. aggregation_level r = Some 1) rs \<noteq> []"
        by (simp add: filter_empty_conv)
      with True noleaf l0 show ?thesis
        by (simp add: recordsToUse_def Let_def)
    next
      case no1: False
      then have "filter (\<lambda>r. aggregation_level r = Some 1) rs = []"
        by (simp add: filter_empty_conv)
      with no1 noleaf l0 False show ?thesis
        by (simp add: recordsToUse_def Let_def m)
    qed
  qed
qed

text \<open>
  When the levels present are from 1 to 998 and there is one, the selection within a group is
  the one worded in the specification.
\<close>

lemma recordsToUse_agrees:
  assumes lv: "\<forall>r \<in> set rs. \<forall>l. aggregation_level r = Some l \<longrightarrow> 1 \<le> l \<and> l < 999"
    and ex: "\<exists>r \<in> set rs. aggregation_level r \<noteq> None"
  shows "recordsToUse rs = recordsToUse_spec rs"
proof -
  let ?P = "List.map_filter aggregation_level rs"
  define m where "m = Min (set ?P)"
  have P: "set ?P = {l. \<exists>r \<in> set rs. aggregation_level r = Some l}"
    by (force simp: List.map_filter_def image_iff)
  from ex have ne: "?P \<noteq> []"
    unfolding set_empty [symmetric] P by auto
  then have mm: "Math_min ?P = m"
    by (simp add: m_def Math_min_Min)
  from ne have "m \<in> set ?P"
    unfolding m_def by (intro Min_in) auto
  then obtain r0 where r0: "r0 \<in> set rs" "aggregation_level r0 = Some m"
    unfolding P by auto
  with lv have mb: "1 \<le> m" "m < 999" by auto
  have ml: "m \<le> l" if "r \<in> set rs" "aggregation_level r = Some l" for r l
  proof -
    from that have "l \<in> set ?P" unfolding P by auto
    then show ?thesis unfolding m_def by (intro Min_le) auto
  qed
  have img: "Min ((\<lambda>r. levelOr999 (aggregation_level r)) ` set rs) = m"
  proof (rule Min_eqI)
    show "finite ((\<lambda>r. levelOr999 (aggregation_level r)) ` set rs)" by simp
  next
    fix y assume "y \<in> (\<lambda>r. levelOr999 (aggregation_level r)) ` set rs"
    then obtain r where r: "r \<in> set rs" "y = levelOr999 (aggregation_level r)" by auto
    show "m \<le> y"
    proof (cases "aggregation_level r")
      case None
      with r mb show ?thesis by simp
    next
      case (Some l)
      with lv r ml [OF r(1) Some] show ?thesis by auto
    qed
  next
    from r0 mb show "m \<in> (\<lambda>r. levelOr999 (aggregation_level r)) ` set rs"
      by (auto simp: image_iff intro!: bexI [of _ r0])
  qed
  have eqv: "(levelOr999 (aggregation_level r) = m) = (aggregation_level r = Some m)" if "r \<in> set rs" for r
  proof (cases "aggregation_level r")
    case None
    with mb show ?thesis by simp
  next
    case (Some l)
    with lv that show ?thesis by auto
  qed
  have f3: "filter (\<lambda>r. levelOr999 (aggregation_level r) = m) rs
      = filter (\<lambda>r. aggregation_level r = Some m) rs"
    by (rule filter_cong [OF refl]) (rule eqv)
  show ?thesis
    unfolding recordsToUse_tiers recordsToUse_spec_def Let_def img mm f3
    by (simp add: filter_empty_conv)
qed

text \<open>
  Geography mode in general. The records are filtered by geography only, grouped by
  geography in the order of first occurrence, and for each geography only the records of the
  segment type of its first record are used. Within that group the non-aggregated records are
  taken; if there is none, the records of aggregation level 1; if there is none either, the
  records whose level is least, an absent level and the level 0 counting as 999. Two records of
  one geography and two segment types, the first a leaf, give the first record alone.
\<close>

theorem geography_mode_selection:
  "leafRecords sel True target ds = deduplicatedRecords (globalRecords sel True target ds)
   \<and> globalRecords sel True target ds = filter (\<lambda>r. sel = [] \<or> geography r \<in> set sel) ds
   \<and> deduplicatedRecords recs
       = concat (map (\<lambda>g. recordsToUse (chosenFor g recs)) (firsts (map geography recs)))
   \<and> recordsToUse rs =
       (if \<exists>r \<in> set rs. is_aggregated r \<noteq> Some True
          then filter (\<lambda>r. is_aggregated r \<noteq> Some True) rs
        else if \<exists>r \<in> set rs. aggregation_level r = Some 1
          then filter (\<lambda>r. aggregation_level r = Some 1) rs
        else filter (\<lambda>r. levelOr999 (aggregation_level r)
                         = Min ((\<lambda>r. levelOr999 (aggregation_level r)) ` set rs)) rs)
   \<and> (geography a = geography b \<and> segment_type a \<noteq> segment_type b \<and> is_aggregated a \<noteq> Some True
        \<longrightarrow> deduplicatedRecords [a, b] = [a])"
proof -
  have d0: "deduplicatedRecords [] = []"
    by (simp add: deduplicatedRecords_def recordsByGeography_def)
  have p1: "leafRecords sel True target ds = deduplicatedRecords (globalRecords sel True target ds)"
    by (simp add: leafRecords_def Let_def d0)
  have p2: "globalRecords sel True target ds = filter (\<lambda>r. sel = [] \<or> geography r \<in> set sel) ds"
    by (auto simp: globalRecords_def intro: filter_cong)
  have p5: "geography a = geography b \<and> segment_type a \<noteq> segment_type b \<and> is_aggregated a \<noteq> Some True
        \<longrightarrow> deduplicatedRecords [a, b] = [a]"
    by (auto simp: deduplicatedRecords_eq chosenFor_def recordsToUse_tiers)
  show ?thesis
    by (intro conjI) (rule p1, rule p2, rule deduplicatedRecords_eq, rule recordsToUse_tiers, rule p5)
qed

theorem geography_mode_selection_witness:
  "map_option marketSizeStart
     (kpiData parseIntAscii (Some (mkData [mkRecord ''US'' ''A'' [(''2024'', 100)] (Some False) None,
                             mkRecord ''US'' ''B'' [(''2024'', 100)] (Some False) None] None))
        (mkFilters [] ''A'' ''geography-mode'') None) = Some 100"
proof -
  let ?a = "mkRecord ''US'' ''A'' [(''2024'', 100)] (Some False) None"
  let ?b = "mkRecord ''US'' ''B'' [(''2024'', 100)] (Some False) None"
  have h: "geography ?a = geography ?b \<and> segment_type ?a \<noteq> segment_type ?b
      \<and> is_aggregated ?a \<noteq> Some True"
    by (simp add: mkRecord_def)
  note g = geography_mode_selection [of "[]" "''A''" "[?a, ?b]" "[]" "[]" ?a ?b]
  have d: "deduplicatedRecords [?a, ?b] = [?a]"
    by (rule g [THEN conjunct2, THEN conjunct2, THEN conjunct2, THEN conjunct2, THEN mp, OF h])
  have "globalRecords [] True ''A'' [?a, ?b] = [?a, ?b]"
    by (simp add: globalRecords_def)
  with d have "leafRecords [] True ''A'' [?a, ?b] = [?a]"
    by (simp only: g [THEN conjunct1])
  then show ?thesis
    by (simp add: kpi_eval deduplicatedRecords_def recordsByGeography_def groupPush_def
        firstSegTypeRecords_def bySegmentType_def recordsToUse_def)
qed

text \<open>
  C1 at a failing input. Two aggregated records of one geography and one segment type have
  the levels 0 and 2. The third tier compares \<^verbatim>\<open>r.aggregation_level || 999\<close>, which reads the
  level 0 as 999: the code takes the record of level 2 and reports its 70, while the record at
  the minimum level present is the one of level 0, with 30.
\<close>

theorem level_zero_not_minimum:
  "recordsToUse [mkRecord ''US'' ''T'' [(''2024'', 30)] (Some True) (Some 0),
                 mkRecord ''US'' ''T'' [(''2024'', 70)] (Some True) (Some 2)]
     = [mkRecord ''US'' ''T'' [(''2024'', 70)] (Some True) (Some 2)]
   \<and> recordsToUse_spec [mkRecord ''US'' ''T'' [(''2024'', 30)] (Some True) (Some 0),
                         mkRecord ''US'' ''T'' [(''2024'', 70)] (Some True) (Some 2)]
     = [mkRecord ''US'' ''T'' [(''2024'', 30)] (Some True) (Some 0)]
   \<and> map_option marketSizeStart
       (kpiData parseIntAscii (Some (mkData [mkRecord ''US'' ''T'' [(''2024'', 30)] (Some True) (Some 0),
                               mkRecord ''US'' ''T'' [(''2024'', 70)] (Some True) (Some 2)] None))
          (mkFilters [] ''T'' ''geography-mode'') None) = Some 70"
  by (simp add: kpi_eval recordsToUse_def recordsToUse_spec_def deduplicatedRecords_def
      recordsByGeography_def groupPush_def firstSegTypeRecords_def bySegmentType_def)


subsection \<open>De-duplication outside geography mode\<close>

lemma mapGet_distinct: "distinct (map fst m) \<Longrightarrow> (k, e) \<in> set m \<Longrightarrow> mapGet m k = Some e"
  by (induction m) force+

lemma cappedLevel_le: "cappedLevel l \<le> 999"
  by (simp add: cappedLevel_def)

lemma cappedLevel_replace:
  assumes "case aggregation_level r of None \<Rightarrow> False
           | Some l \<Rightarrow> l \<noteq> 0 \<and> l < levelOr999 (aggregation_level ex)"
  shows "cappedLevel (aggregation_level r) \<le> cappedLevel (aggregation_level ex)"
  using assms by (cases "aggregation_level r") (auto simp: cappedLevel_def)

lemma cappedLevel_keep:
  assumes "\<not> (case aggregation_level r of None \<Rightarrow> False
           | Some l \<Rightarrow> l \<noteq> 0 \<and> l < levelOr999 (aggregation_level ex))"
  shows "cappedLevel (aggregation_level ex) \<le> cappedLevel (aggregation_level r)"
  using assms by (cases "aggregation_level r") (auto simp: cappedLevel_def)

lemma geoMap_fold:
  "map fst (fold geoMapStep recs []) = firsts (map geoKey recs)
   \<and> (\<forall>p \<in> set (fold geoMapStep recs []).
         snd p \<in> set recs \<and> geoKey (snd p) = fst p
         \<and> (\<forall>r \<in> set recs. geoKey r = fst p \<longrightarrow>
               cappedLevel (aggregation_level (snd p)) \<le> cappedLevel (aggregation_level r)))"
proof (induction recs rule: rev_induct)
  case Nil
  then show ?case by simp
next
  case (snoc r recs)
  define m where "m = fold geoMapStep recs []"
  define k where "k = geoKey r"
  have keys: "map fst m = firsts (map geoKey recs)"
    using snoc by (simp add: m_def)
  have ent: "e' \<in> set recs \<and> geoKey e' = k'
      \<and> (\<forall>r' \<in> set recs. geoKey r' = k' \<longrightarrow>
            cappedLevel (aggregation_level e') \<le> cappedLevel (aggregation_level r'))"
    if "(k', e') \<in> set m" for k' e'
    using snoc that unfolding m_def by fastforce
  have dist: "distinct (map fst m)"
    by (simp add: keys)
  have kset: "fst ` set m = geoKey ` set recs"
    using arg_cong [OF keys, of set] by simp
  have step: "fold geoMapStep (recs @ [r]) [] = geoMapStep r m"
    by (simp add: m_def)
  have goal: "map fst m' = firsts (map geoKey (recs @ [r]))
      \<and> (\<forall>p \<in> set m'. snd p \<in> set (recs @ [r]) \<and> geoKey (snd p) = fst p
         \<and> (\<forall>r' \<in> set (recs @ [r]). geoKey r' = fst p \<longrightarrow>
               cappedLevel (aggregation_level (snd p)) \<le> cappedLevel (aggregation_level r')))"
    if fk: "map fst m' = (if k \<in> fst ` set m then map fst m else map fst m @ [k])"
      and mem: "\<And>k' e'. (k', e') \<in> set m' \<Longrightarrow> (k' = k \<and> e' = r \<and> (\<forall>r' \<in> set recs. geoKey r' = k \<longrightarrow>
               cappedLevel (aggregation_level r) \<le> cappedLevel (aggregation_level r')))
            \<or> ((k', e') \<in> set m \<and> (k' = k \<longrightarrow>
               cappedLevel (aggregation_level e') \<le> cappedLevel (aggregation_level r)))"
    for m'
  proof
    show "map fst m' = firsts (map geoKey (recs @ [r]))"
      using fk kset keys by (simp add: firsts_snoc k_def)
  next
    show "\<forall>p \<in> set m'. snd p \<in> set (recs @ [r]) \<and> geoKey (snd p) = fst p
         \<and> (\<forall>r' \<in> set (recs @ [r]). geoKey r' = fst p \<longrightarrow>
               cappedLevel (aggregation_level (snd p)) \<le> cappedLevel (aggregation_level r'))"
    proof
      fix p assume p: "p \<in> set m'"
      obtain k' e' where pe: "p = (k', e')" by (cases p)
      from mem [of k' e'] p pe consider
          (new) "k' = k" "e' = r" "\<forall>r' \<in> set recs. geoKey r' = k \<longrightarrow>
               cappedLevel (aggregation_level r) \<le> cappedLevel (aggregation_level r')"
        | (old) "(k', e') \<in> set m" "k' = k \<longrightarrow>
               cappedLevel (aggregation_level e') \<le> cappedLevel (aggregation_level r)"
        by blast
      then show "snd p \<in> set (recs @ [r]) \<and> geoKey (snd p) = fst p
         \<and> (\<forall>r' \<in> set (recs @ [r]). geoKey r' = fst p \<longrightarrow>
               cappedLevel (aggregation_level (snd p)) \<le> cappedLevel (aggregation_level r'))"
      proof cases
        case new
        then show ?thesis by (simp add: pe k_def)
      next
        case old
        from ent [OF old(1)] old(2) show ?thesis by (simp add: pe k_def)
      qed
    qed
  qed
  show ?case
  proof (cases "mapGet m k")
    case None
    then have nk: "k \<notin> fst ` set m" by (simp add: mapGet_None_keys)
    have m': "geoMapStep r m = m @ [(k, r)]"
      using None nk by (simp add: geoMapStep_def k_def [symmetric] mapSet_new)
    have "\<forall>r' \<in> set recs. geoKey r' \<noteq> k"
      using nk kset by auto
    moreover have "(k, e) \<notin> set m" for e
      using nk by force
    ultimately show ?thesis
      unfolding step m' by (intro goal) (use nk in auto)
  next
    case (Some ex)
    then have exm: "(k, ex) \<in> set m" by (rule mapGet_Some_mem)
    then have ink: "k \<in> fst ` set m" by force
    show ?thesis
    proof (cases "case aggregation_level r of None \<Rightarrow> False
           | Some l \<Rightarrow> l \<noteq> 0 \<and> l < levelOr999 (aggregation_level ex)")
      case True
      then have m': "geoMapStep r m = mapSet m k r"
        using Some by (simp add: geoMapStep_def k_def [symmetric])
      have le: "\<forall>r' \<in> set recs. geoKey r' = k \<longrightarrow>
               cappedLevel (aggregation_level r) \<le> cappedLevel (aggregation_level r')"
      proof (intro ballI impI)
        fix r' assume "r' \<in> set recs" "geoKey r' = k"
        with ent [OF exm] have "cappedLevel (aggregation_level ex) \<le> cappedLevel (aggregation_level r')"
          by blast
        with cappedLevel_replace [OF True] show
          "cappedLevel (aggregation_level r) \<le> cappedLevel (aggregation_level r')" by simp
      qed
      show ?thesis
        unfolding step m'
      proof (rule goal)
        show "map fst (mapSet m k r) = (if k \<in> fst ` set m then map fst m else map fst m @ [k])"
          by (rule map_fst_mapSet)
      next
        fix k' e' assume "(k', e') \<in> set (mapSet m k r)"
        with mem_mapSet [OF dist, of k' e' k r] le
        show "(k' = k \<and> e' = r \<and> (\<forall>r' \<in> set recs. geoKey r' = k \<longrightarrow>
               cappedLevel (aggregation_level r) \<le> cappedLevel (aggregation_level r')))
            \<or> ((k', e') \<in> set m \<and> (k' = k \<longrightarrow>
               cappedLevel (aggregation_level e') \<le> cappedLevel (aggregation_level r)))"
          by blast
      qed
    next
      case False
      then have m': "geoMapStep r m = m"
        using Some by (simp add: geoMapStep_def k_def [symmetric])
      show ?thesis
        unfolding step m'
      proof (rule goal)
        show "map fst m = (if k \<in> fst ` set m then map fst m else map fst m @ [k])"
          using ink by simp
      next
        fix k' e' assume in_m: "(k', e') \<in> set m"
        have "cappedLevel (aggregation_level e') \<le> cappedLevel (aggregation_level r)" if "k' = k"
        proof -
          from mapGet_distinct [OF dist in_m] that Some have "e' = ex" by simp
          with cappedLevel_keep [OF False] show ?thesis by simp
        qed
        with in_m show "(k' = k \<and> e' = r \<and> (\<forall>r' \<in> set recs. geoKey r' = k \<longrightarrow>
               cappedLevel (aggregation_level r) \<le> cappedLevel (aggregation_level r')))
            \<or> ((k', e') \<in> set m \<and> (k' = k \<longrightarrow>
               cappedLevel (aggregation_level e') \<le> cappedLevel (aggregation_level r)))"
          by blast
      qed
    qed
  qed
qed


lemma distinct_map_comp: "distinct (map (\<lambda>x. h (f x)) xs) \<Longrightarrow> distinct (map f xs)"
  by (auto simp: distinct_map inj_on_def)

lemma geoKey_pair: "geoKey r = (\<lambda>(g, t). g @ ''::'' @ t) (geography r, segment_type r)"
  by (simp add: geoKey_def)

lemma geoMapValues_props:
  "set (geoMapValues recs) \<subseteq> set recs"
  "distinct (map (\<lambda>r. (geography r, segment_type r)) (geoMapValues recs))"
  "\<forall>r \<in> set recs. \<exists>e \<in> set (geoMapValues recs). geoKey e = geoKey r"
  "\<forall>e \<in> set (geoMapValues recs). \<forall>r \<in> set recs. geoKey r = geoKey e \<longrightarrow>
      cappedLevel (aggregation_level e) \<le> cappedLevel (aggregation_level r)"
proof -
  define m where "m = fold geoMapStep recs []"
  have keys: "map fst m = firsts (map geoKey recs)"
    and ent: "\<And>p. p \<in> set m \<Longrightarrow> snd p \<in> set recs \<and> geoKey (snd p) = fst p
         \<and> (\<forall>r \<in> set recs. geoKey r = fst p \<longrightarrow>
               cappedLevel (aggregation_level (snd p)) \<le> cappedLevel (aggregation_level r))"
    using geoMap_fold [of recs] by (simp_all add: m_def)
  have vals: "geoMapValues recs = map snd m"
    by (simp add: geoMapValues_def m_def)
  show "set (geoMapValues recs) \<subseteq> set recs"
    using ent by (auto simp: vals)
  have "map geoKey (map snd m) = map fst m"
    using ent by (simp add: comp_def)
  then have "distinct (map geoKey (geoMapValues recs))"
    by (simp only: vals keys distinct_firsts)
  then show "distinct (map (\<lambda>r. (geography r, segment_type r)) (geoMapValues recs))"
    using distinct_map_comp [where h = "\<lambda>(g, t). g @ ''::'' @ t"
        and f = "\<lambda>r. (geography r, segment_type r)" and xs = "geoMapValues recs"]
    by (simp add: geoKey_def [abs_def])
  show "\<forall>r \<in> set recs. \<exists>e \<in> set (geoMapValues recs). geoKey e = geoKey r"
  proof
    fix r assume "r \<in> set recs"
    then have "geoKey r \<in> set (map fst m)"
      by (simp add: keys)
    then obtain p where "p \<in> set m" "fst p = geoKey r" by auto
    with ent [of p] show "\<exists>e \<in> set (geoMapValues recs). geoKey e = geoKey r"
      by (auto simp: vals intro!: bexI [of _ p])
  qed
  show "\<forall>e \<in> set (geoMapValues recs). \<forall>r \<in> set recs. geoKey r = geoKey e \<longrightarrow>
      cappedLevel (aggregation_level e) \<le> cappedLevel (aggregation_level r)"
    using ent by (auto simp: vals)
qed


text \<open>
  When the levels present are from 1 to 998, the de-duplication keeps the lowest level seen of
  every pair.
\<close>

lemma geoMapValues_agrees:
  assumes lv: "\<forall>r \<in> set recs. \<forall>l. aggregation_level r = Some l \<longrightarrow> 1 \<le> l \<and> l < 999"
  shows "lowestLevelKept_spec recs (geoMapValues recs)"
  unfolding lowestLevelKept_spec_def list_all_iff
proof (intro ballI)
  fix e r assume e: "e \<in> set (geoMapValues recs)" and r: "r \<in> set recs"
  from e geoMapValues_props(1) [of recs] have er: "e \<in> set recs" by blast
  show "if geography r = geography e \<and> segment_type r = segment_type e
        then (case aggregation_level r of
                None \<Rightarrow> True
              | Some lr \<Rightarrow> (case aggregation_level e of None \<Rightarrow> False | Some le \<Rightarrow> le \<le> lr))
        else True"
  proof (cases "geography r = geography e \<and> segment_type r = segment_type e")
    case False
    then show ?thesis by auto
  next
    case True
    then have "geoKey r = geoKey e" by (simp add: geoKey_def)
    with geoMapValues_props(4) [of recs] e r
    have c: "cappedLevel (aggregation_level e) \<le> cappedLevel (aggregation_level r)" by blast
    show ?thesis
    proof (cases "aggregation_level r")
      case None
      with True show ?thesis by simp
    next
      case (Some lr)
      with lv r have lr: "1 \<le> lr" "lr < 999" by auto
      show ?thesis
      proof (cases "aggregation_level e")
        case None
        with c Some lr show ?thesis by (simp add: cappedLevel_def)
      next
        case (Some le)
        with lv er have "1 \<le> le" "le < 999" by auto
        with c Some \<open>aggregation_level r = Some lr\<close> lr True show ?thesis
          by (simp add: cappedLevel_def)
      qed
    qed
  qed
qed

lemma leafRecordsNormal_tiers:
  "leafRecordsNormal recs =
    (if \<exists>r \<in> set recs. is_aggregated r = Some False
       then filter (\<lambda>r. is_aggregated r = Some False) recs
     else if \<exists>r \<in> set recs. aggregation_level r = Some 1
       then filter (\<lambda>r. aggregation_level r = Some 1) recs
     else geoMapValues recs)"
proof (cases "\<exists>r \<in> set recs. is_aggregated r = Some False")
  case True
  then have "filter (\<lambda>r. is_aggregated r = Some False) recs \<noteq> []"
    by (simp add: filter_empty_conv)
  with True show ?thesis by (simp add: leafRecordsNormal_def Let_def)
next
  case noleaf: False
  then have l0: "filter (\<lambda>r. is_aggregated r = Some False) recs = []"
    by (simp add: filter_empty_conv)
  show ?thesis
  proof (cases "\<exists>r \<in> set recs. aggregation_level r = Some 1")
    case True
    then have "filter (\<lambda>r. aggregation_level r = Some 1) recs \<noteq> []"
      by (simp add: filter_empty_conv)
    with True noleaf l0 show ?thesis by (simp add: leafRecordsNormal_def Let_def)
  next
    case False
    then have "filter (\<lambda>r. aggregation_level r = Some 1) recs = []"
      by (simp add: filter_empty_conv)
    with False noleaf l0 show ?thesis by (simp add: leafRecordsNormal_def Let_def)
  qed
qed

text \<open>
  Outside geography mode in general. The records are filtered by geography and segment
  type; the records whose \<^verbatim>\<open>is_aggregated\<close> is \<^verbatim>\<open>false\<close> are taken; if there is none, the records
  of aggregation level 1; if there is none either, one record is kept for each (geography,
  segment type) pair, and its level is least among the records of the pair, an absent level,
  the level 0 and a level above 999 counting as 999. A leaf record and a record that is not a
  leaf give the leaf record alone.
\<close>

theorem normal_mode_selection:
  assumes t: "target \<noteq> []" and recs: "recs = globalRecords sel False target ds"
  shows "leafRecords sel False target ds =
      (if \<exists>r \<in> set recs. is_aggregated r = Some False
         then filter (\<lambda>r. is_aggregated r = Some False) recs
       else if \<exists>r \<in> set recs. aggregation_level r = Some 1
         then filter (\<lambda>r. aggregation_level r = Some 1) recs
       else geoMapValues recs)
    \<and> recs = filter (\<lambda>r. (sel = [] \<or> geography r \<in> set sel) \<and> segment_type r = target) ds
    \<and> set (geoMapValues recs) \<subseteq> set recs
    \<and> distinct (map (\<lambda>r. (geography r, segment_type r)) (geoMapValues recs))
    \<and> (\<forall>r \<in> set recs. \<exists>e \<in> set (geoMapValues recs).
          geography e = geography r \<and> segment_type e = segment_type r)
    \<and> (\<forall>e \<in> set (geoMapValues recs). \<forall>r \<in> set recs.
          geography r = geography e \<and> segment_type r = segment_type e \<longrightarrow>
            cappedLevel (aggregation_level e) \<le> cappedLevel (aggregation_level r))
    \<and> (is_aggregated a = Some False \<and> is_aggregated b \<noteq> Some False \<longrightarrow>
          leafRecordsNormal [a, b] = [a] \<and> leafRecordsNormal [b, a] = [a])"
proof -
  have p1: "leafRecords sel False target ds =
      (if \<exists>r \<in> set recs. is_aggregated r = Some False
         then filter (\<lambda>r. is_aggregated r = Some False) recs
       else if \<exists>r \<in> set recs. aggregation_level r = Some 1
         then filter (\<lambda>r. aggregation_level r = Some 1) recs
       else geoMapValues recs)"
    using leafRecordsNormal_tiers [of recs] by (simp add: leafRecords_def recs)
  have p2: "recs = filter (\<lambda>r. (sel = [] \<or> geography r \<in> set sel) \<and> segment_type r = target) ds"
    unfolding recs globalRecords_def using t by (intro filter_cong refl) auto
  then have st: "segment_type r = target" if "r \<in> set recs" for r
    using that by simp
  have p5: "\<forall>r \<in> set recs. \<exists>e \<in> set (geoMapValues recs).
          geography e = geography r \<and> segment_type e = segment_type r"
  proof
    fix r assume r: "r \<in> set recs"
    with geoMapValues_props(3) [of recs] obtain e where
      e: "e \<in> set (geoMapValues recs)" "geoKey e = geoKey r" by blast
    with geoMapValues_props(1) [of recs] have "e \<in> set recs" by blast
    with st r have "segment_type e = segment_type r" by simp
    with e show "\<exists>e \<in> set (geoMapValues recs).
          geography e = geography r \<and> segment_type e = segment_type r"
      by (auto simp: geoKey_def)
  qed
  have p6: "\<forall>e \<in> set (geoMapValues recs). \<forall>r \<in> set recs.
          geography r = geography e \<and> segment_type r = segment_type e \<longrightarrow>
            cappedLevel (aggregation_level e) \<le> cappedLevel (aggregation_level r)"
    using geoMapValues_props(4) [of recs] by (simp add: geoKey_def)
  have p7: "is_aggregated a = Some False \<and> is_aggregated b \<noteq> Some False \<longrightarrow>
          leafRecordsNormal [a, b] = [a] \<and> leafRecordsNormal [b, a] = [a]"
    by (simp add: leafRecordsNormal_def)
  show ?thesis
    by (intro conjI) (rule p1, rule p2, rule geoMapValues_props(1), rule geoMapValues_props(2),
      rule p5, rule p6, rule p7)
qed

theorem normal_mode_selection_witness:
  "map_option marketSizeStart
     (kpiData parseIntAscii (Some (mkData [mkRecord ''US'' ''T'' [(''2024'', 100)] (Some False) None,
                             mkRecord ''US'' ''T'' [(''2024'', 100)] (Some True) (Some 1)] None))
        (mkFilters [] ''T'' ''segment-mode'') None) = Some 100
   \<and> map_option marketSizeEnd
     (kpiData parseIntAscii (Some (mkData [mkRecord ''US'' ''T'' [(''2024'', 100)] (Some False) None,
                             mkRecord ''US'' ''T'' [(''2024'', 100)] (Some True) (Some 1)] None))
        (mkFilters [] ''T'' ''segment-mode'') None) = Some 100"
proof -
  let ?a = "mkRecord ''US'' ''T'' [(''2024'', 100)] (Some False) None"
  let ?b = "mkRecord ''US'' ''T'' [(''2024'', 100)] (Some True) (Some 1)"
  have t: "''T'' \<noteq> []" by simp
  have h: "is_aggregated ?a = Some False \<and> is_aggregated ?b \<noteq> Some False"
    by (simp add: mkRecord_def)
  note g = normal_mode_selection [OF t refl, of "[]" "[?a, ?b]" ?a ?b]
  have "leafRecordsNormal [?a, ?b] = [?a]"
    using g h by blast
  then show ?thesis
    by (simp add: kpi_eval)
qed

text \<open>
  C2 at a failing input. Two aggregated records of one (geography, segment type) pair have the
  levels 2 and 0. The replacement test \<^verbatim>\<open>record.aggregation_level && ...\<close> is false for the
  level 0, so the record of level 2 stays in the map and its 70 is reported, while the lowest
  level seen for the pair is 0. In the other order the record of level 0 is replaced, its
  level being read as 999.
\<close>

theorem level_zero_not_kept:
  "leafRecords [] False ''T'' [mkRecord ''US'' ''T'' [(''2024'', 70)] (Some True) (Some 2),
                                mkRecord ''US'' ''T'' [(''2024'', 30)] (Some True) (Some 0)]
     = [mkRecord ''US'' ''T'' [(''2024'', 70)] (Some True) (Some 2)]
   \<and> \<not> lowestLevelKept_spec
         [mkRecord ''US'' ''T'' [(''2024'', 70)] (Some True) (Some 2),
          mkRecord ''US'' ''T'' [(''2024'', 30)] (Some True) (Some 0)]
         [mkRecord ''US'' ''T'' [(''2024'', 70)] (Some True) (Some 2)]
   \<and> lowestLevelKept_spec
         [mkRecord ''US'' ''T'' [(''2024'', 70)] (Some True) (Some 2),
          mkRecord ''US'' ''T'' [(''2024'', 30)] (Some True) (Some 0)]
         [mkRecord ''US'' ''T'' [(''2024'', 30)] (Some True) (Some 0)]
   \<and> map_option marketSizeStart
       (kpiData parseIntAscii
          (Some (mkData [mkRecord ''US'' ''T'' [(''2024'', 70)] (Some True) (Some 2),
                         mkRecord ''US'' ''T'' [(''2024'', 30)] (Some True) (Some 0)] None))
          (mkFilters [] ''T'' ''segment-mode'') None) = Some 70
   \<and> leafRecords [] False ''T'' [mkRecord ''US'' ''T'' [(''2024'', 30)] (Some True) (Some 0),
                                  mkRecord ''US'' ''T'' [(''2024'', 70)] (Some True) (Some 2)]
     = [mkRecord ''US'' ''T'' [(''2024'', 70)] (Some True) (Some 2)]"
  by (simp add: kpi_eval geoMapStep_def geoKey_def lowestLevelKept_spec_def)

text \<open>
  C9. Outside geography mode the leaf tier admits only records whose \<^verbatim>\<open>is_aggregated\<close> is
  exactly \<^verbatim>\<open>false\<close>: when no filtered record has it (for instance the field is absent on all
  of them), the leaf tier selects nothing, and the selection is the level-1 tier if that is
  non-empty and the per-key de-duplication otherwise. When there is a filtered record at all,
  the selection is not empty, so the fallback does not replace it.
\<close>

theorem leaf_tier_strict:
  assumes "\<forall>r \<in> set (globalRecords sel False target ds). is_aggregated r \<noteq> Some False"
  shows "filter (\<lambda>record. is_aggregated record = Some False) (globalRecords sel False target ds) = []
       \<and> leafRecords sel False target ds =
          (if filter (\<lambda>record. aggregation_level record = Some 1) (globalRecords sel False target ds) \<noteq> []
           then filter (\<lambda>record. aggregation_level record = Some 1) (globalRecords sel False target ds)
           else geoMapValues (globalRecords sel False target ds))
       \<and> (globalRecords sel False target ds \<noteq> [] \<longrightarrow>
            selectRecords sel False target ds = (leafRecords sel False target ds, sel))"
proof -
  let ?g = "globalRecords sel False target ds"
  from assms have e: "filter (\<lambda>record. is_aggregated record = Some False) ?g = []"
    by (simp add: filter_empty_conv)
  have l: "leafRecords sel False target ds = leafRecordsNormal ?g"
    by (simp add: leafRecords_def)
  have t: "leafRecords sel False target ds =
          (if filter (\<lambda>record. aggregation_level record = Some 1) ?g \<noteq> []
           then filter (\<lambda>record. aggregation_level record = Some 1) ?g
           else geoMapValues ?g)"
    using e l by (simp add: leafRecordsNormal_def)
  have n: "geoMapValues ?g \<noteq> []" if "?g \<noteq> []"
  proof -
    from that obtain r where "r \<in> set ?g" by (cases ?g) auto
    with geoMapValues_props(3) [of ?g] show ?thesis by fastforce
  qed
  have s: "?g \<noteq> [] \<longrightarrow> selectRecords sel False target ds = (leafRecords sel False target ds, sel)"
  proof
    assume "?g \<noteq> []"
    with n t have "leafRecords sel False target ds \<noteq> []" by (simp split: if_splits)
    then show "selectRecords sel False target ds = (leafRecords sel False target ds, sel)"
      by (simp add: selectRecords_def Let_def)
  qed
  from e t s show ?thesis by (intro conjI)
qed

theorem leaf_tier_strict_witness:
  "filter (\<lambda>record. is_aggregated record = Some False)
     (globalRecords [] False ''T'' [mkRecord ''US'' ''T'' [] None (Some 1), mkRecord ''US'' ''T'' [] None None]) = []
   \<and> leafRecords [] False ''T'' [mkRecord ''US'' ''T'' [] None (Some 1), mkRecord ''US'' ''T'' [] None None]
     = [mkRecord ''US'' ''T'' [] None (Some 1)]
   \<and> selectRecords [] False ''T'' [mkRecord ''US'' ''T'' [] None (Some 1), mkRecord ''US'' ''T'' [] None None]
     = ([mkRecord ''US'' ''T'' [] None (Some 1)], [])"
proof -
  have h: "\<forall>r \<in> set (globalRecords [] False ''T''
      [mkRecord ''US'' ''T'' [] None (Some 1), mkRecord ''US'' ''T'' [] None None]). is_aggregated r \<noteq> Some False"
    by (simp add: globalRecords_def mkRecord_def)
  show ?thesis
    using leaf_tier_strict [OF h] by (simp add: globalRecords_def mkRecord_def)
qed


section \<open>Properties of the hierarchy reconstructor\<close>

text \<open>
  C3 at a failing input. With R over A, A over B and B over A, the label A is expanded again
  below itself (and B below itself): the set holds whole paths, so the test never finds the
  path of the item at hand, and only the depth limit ends the descent.
\<close>

theorem cycle_is_expanded:
  "snodePath [''R'', ''A'', ''B'', ''A'', ''B'', ''A''] (segmentTree cyclicDimension) \<noteq> None"
  by code_simp

text \<open>
  C5 at a failing input. For an aggregated record of level 2 the volume export writes the
  year only, while the value export of the same record adds \<^verbatim>\<open>_aggregated\<close> and \<^verbatim>\<open>_level\<close>.
\<close>

theorem volume_leaf_lacks_marker:
  "extractVolumeData fmt (mkData [] (Some [mkRecord ''US'' ''T'' [(''2024'', 5)] (Some True) (Some 2)]))
     = Inr (JObj [(''US'', JObj [(''T'', JObj [(''2024'', JNum 5)])])])
   \<and> extractValueData fmt (mkData [mkRecord ''US'' ''T'' [(''2024'', 5)] (Some True) (Some 2)] None)
     = Inr (JObj [(''US'', JObj [(''T'', JObj [(''2024'', JNum 5), (''_aggregated'', JBool True),
                                                 (''_level'', JNum 2)])])])"
  by (simp add: extractVolumeData_def extractValueData_def mkData_def mkRecord_def volumeRecord_def valueRecord_def
      valueLeaf_def volumeLeaf_def segmentsOf_def List.map_filter_def writeCagr_def writeAggregated_def
      MAX_SEGMENT_DEPTH_def objectPrototypeNames_def)

subsection \<open>Descending and walking\<close>

lemma descend_walk:
  "descend ls d current k = walk (take (MAX_SEGMENT_DEPTH - d) (filter (\<lambda>s. s \<noteq> []) ls)) current k"
proof (induction ls arbitrary: d current)
  case Nil
  then show ?case by simp
next
  case (Cons s ls)
  show ?case
  proof (cases "d \<ge> MAX_SEGMENT_DEPTH")
    case True
    then show ?thesis by simp
  next
    case False
    then obtain n where n: "MAX_SEGMENT_DEPTH - d = Suc n" "MAX_SEGMENT_DEPTH - (d + 1) = n"
      by (cases "MAX_SEGMENT_DEPTH - d") auto
    show ?thesis
    proof (cases "s = []")
      case True
      with False Cons [of d current] show ?thesis by simp
    next
      case ne: False
      have "(\<lambda>child. descend ls (d + 1) child k)
          = (\<lambda>child. walk (take n (filter (\<lambda>s. s \<noteq> []) ls)) child k)"
        using Cons [of "d + 1"] n by auto
      with False ne n show ?thesis by simp
    qed
  qed
qed

lemma getPath_append:
  "getPath (p @ q) v = (case getPath p v of None \<Rightarrow> None | Some c \<Rightarrow> getPath q c)"
  by (induction p arbitrary: v) (auto split: option.splits)

lemma getPath_key: "getPath [key] v = jget v key"
  by (simp split: option.splits)

lemma getPath_prim:
  "p \<noteq> [] \<Longrightarrow> \<not> truthy (Some c) \<Longrightarrow> getPath p c = None"
  by (cases p; cases c) auto

lemma getPath_empty: "p \<noteq> [] \<Longrightarrow> getPath p (JObj []) = None"
  by (cases p) auto


lemma enter_Inr:
  assumes "enter key t k = Inr t'"
  obtains kvs child child' where "t = JObj kvs" "k child = Inr child'" "t' = JObj (mapSet kvs key child')"
    "child = (if \<not> truthy (mapGet kvs key) then JObj []
              else (case mapGet kvs key of None \<Rightarrow> JObj [] | Some c \<Rightarrow> c))"
    "\<not> (mapGet kvs key = None \<and> key \<in> set objectPrototypeNames)"
  using assms by (cases t) (auto simp: Let_def split: if_splits sum.splits)

lemma child_getPath:
  assumes "child = (if \<not> truthy (mapGet kvs key) then JObj []
              else (case mapGet kvs key of None \<Rightarrow> JObj [] | Some c \<Rightarrow> c))" "q \<noteq> []"
  shows "getPath (key # q) (JObj kvs) = getPath q child"
proof (cases "mapGet kvs key")
  case None
  with assms show ?thesis by (simp add: getPath_empty)
next
  case (Some c)
  with assms show ?thesis by (auto simp: getPath_empty getPath_prim)
qed

lemma walk_node:
  assumes "walk p t k = Inr t'"
  shows "\<exists>x x'. k x = Inr x' \<and> getPath p t' = Some x' \<and> (\<forall>key. jget x key = getPath (p @ [key]) t)"
  using assms
proof (induction p arbitrary: t t')
  case Nil
  then have "k t = Inr t' \<and> getPath [] t' = Some t' \<and> (\<forall>key. jget t key = getPath ([] @ [key]) t)"
    by (simp split: option.splits)
  then show ?case by blast
next
  case (Cons s p)
  from Cons.prems have "enter s t (\<lambda>child. walk p child k) = Inr t'" by simp
  then obtain kvs child child' where e: "t = JObj kvs" "walk p child k = Inr child'"
      "t' = JObj (mapSet kvs s child')"
      "child = (if \<not> truthy (mapGet kvs s) then JObj []
              else (case mapGet kvs s of None \<Rightarrow> JObj [] | Some c \<Rightarrow> c))"
    by (rule enter_Inr)
  from Cons.IH [OF e(2)] obtain x x' where x: "k x = Inr x'" "getPath p child' = Some x'"
      "\<forall>key. jget x key = getPath (p @ [key]) child"
    by blast
  have "getPath ((s # p) @ [key]) t = getPath (p @ [key]) child" for key
    using child_getPath [OF e(4), of "p @ [key]"] e(1) by simp
  with x e(3) show ?case
    by (auto simp: mapGet_mapSet)
qed

lemma walk_frame:
  assumes "walk p' t k = Inr t'" "p \<noteq> p'" "set p \<inter> L = {}" "set p' \<inter> L = {}" "key \<in> L"
    and k: "\<And>x x' s. k x = Inr x' \<Longrightarrow> s \<notin> L \<Longrightarrow> jget x' s = jget x s"
  shows "getPath (p @ [key]) t' = getPath (p @ [key]) t"
  using assms(1-4)
proof (induction p' arbitrary: p t t')
  case Nil
  then obtain s ps where p: "p = s # ps" by (cases p) auto
  with Nil.prems have "s \<notin> L" by auto
  from k [OF _ this, of t t'] Nil.prems(1) have "jget t' s = jget t s" by simp
  then show ?case by (simp add: p)
next
  case (Cons s' p')
  from Cons.prems(1) have "enter s' t (\<lambda>child. walk p' child k) = Inr t'" by simp
  then obtain kvs child child' where e: "t = JObj kvs" "walk p' child k = Inr child'"
      "t' = JObj (mapSet kvs s' child')"
      "child = (if \<not> truthy (mapGet kvs s') then JObj []
              else (case mapGet kvs s' of None \<Rightarrow> JObj [] | Some c \<Rightarrow> c))"
    by (rule enter_Inr)
  from Cons.prems have s'L: "s' \<notin> L" by auto
  show ?case
  proof (cases p)
    case Nil
    with e s'L \<open>key \<in> L\<close> show ?thesis by (auto simp: mapGet_mapSet)
  next
    case (Cons s ps)
    show ?thesis
    proof (cases "s = s'")
      case False
      with Cons e show ?thesis by (simp add: mapGet_mapSet)
    next
      case True
      with Cons Cons.prems have "ps \<noteq> p'" "set ps \<inter> L = {}" "set p' \<inter> L = {}" by auto
      from Cons.IH [OF e(2) this] have "getPath (ps @ [key]) child' = getPath (ps @ [key]) child" .
      moreover have "getPath (s' # ps @ [key]) (JObj kvs) = getPath (ps @ [key]) child"
        using child_getPath [OF e(4), of "ps @ [key]"] by simp
      ultimately show ?thesis using Cons True e by (simp add: mapGet_mapSet)
    qed
  qed
qed


lemma segmentsOf_nonempty: "\<forall>s \<in> set (segmentsOf r). s \<noteq> []"
  by (auto simp: segmentsOf_def List.map_filter_def dest!: in_set_takeD split: option.splits if_splits)

lemma length_map_filter_le: "length (List.map_filter f xs) \<le> length xs"
  by (simp add: List.map_filter_def)

lemma length_segmentsOf: "length (segmentsOf r) \<le> 5"
proof -
  have "length (take n (List.map_filter f [a, b, c, d, e])) \<le> 5"
    for n and f :: "string option \<Rightarrow> string option" and a b c d e
    using length_map_filter_le [of f "[a, b, c, d, e]"] by (simp del: List.map_filter_simps)
  then show ?thesis
    unfolding segmentsOf_def by blast
qed


subsection \<open>Leaf writes\<close>

lemma setProp_jget:
  assumes "setProp cur key v = Inr c"
  shows "jget c s = (if s = key \<and> key \<noteq> ''__proto__'' then Some v else jget cur s)"
  using assms by (cases cur) (auto simp: mapGet_mapSet split: if_splits)

lemma setProp_objTree:
  assumes "objTree L cur" "key \<in> L"
  shows "\<exists>c. setProp cur key v = Inr c \<and> objTree L c"
proof -
  from assms(1) obtain kvs where cur: "cur = JObj kvs" by (cases cur) auto
  have "objTree L (JObj (mapSet kvs key v))"
    using set_mapSet_subset [of kvs key v] assms cur by auto
  with assms cur show ?thesis by auto
qed

lemma writeYears_jget:
  assumes "writeYears ts cur = Inr c" "s \<noteq> []" "s \<noteq> ''__proto__''"
  shows "jget c s = (case map_of (rev ts) s of None \<Rightarrow> jget cur s | Some v \<Rightarrow> Some (JNum v))"
  using assms(1)
proof (induction ts arbitrary: cur)
  case Nil
  then show ?case by simp
next
  case (Cons yv ts)
  obtain y v where yv: "yv = (y, v)" by (cases yv)
  have m: "map_of (rev (yv # ts)) s =
      (case map_of (rev ts) s of None \<Rightarrow> (if y = s then Some v else None) | Some w \<Rightarrow> Some w)"
    by (simp add: yv map_add_def split: option.splits)
  show ?case
  proof (cases "y = []")
    case True
    with Cons yv assms(2) m show ?thesis by (auto split: option.splits)
  next
    case False
    with Cons.prems yv obtain c1 where c1: "setProp cur y (JNum v) = Inr c1" "writeYears ts c1 = Inr c"
      by (auto split: sum.splits)
    from Cons.IH [OF c1(2)] setProp_jget [OF c1(1), of s] assms(3) m show ?thesis
      by (auto split: option.splits)
  qed
qed

lemma writeYears_frame:
  assumes "writeYears ts cur = Inr c" "s \<notin> set (filter (\<lambda>y. y \<noteq> [] \<and> y \<noteq> ''__proto__'') (map fst ts))"
  shows "jget c s = jget cur s"
  using assms
proof (induction ts arbitrary: cur)
  case Nil
  then show ?case by simp
next
  case (Cons yv ts)
  obtain y v where yv: "yv = (y, v)" by (cases yv)
  show ?case
  proof (cases "y = []")
    case True
    with Cons yv show ?thesis by auto
  next
    case False
    with Cons.prems yv obtain c1 where c1: "setProp cur y (JNum v) = Inr c1" "writeYears ts c1 = Inr c"
      by (auto split: sum.splits)
    from Cons.prems(2) have "s \<notin> set (filter (\<lambda>y. y \<noteq> [] \<and> y \<noteq> ''__proto__'') (map fst ts))"
      by (auto split: if_splits)
    from Cons.IH [OF c1(2) this] setProp_jget [OF c1(1), of s] Cons.prems(2) yv False show ?thesis
      by (auto split: if_splits)
  qed
qed

lemma writeYears_keeps:
  assumes "writeYears ts cur = Inr c" "jget cur s \<noteq> None"
  shows "jget c s \<noteq> None"
  using assms
proof (induction ts arbitrary: cur)
  case Nil
  then show ?case by simp
next
  case (Cons yv ts)
  obtain y v where yv: "yv = (y, v)" by (cases yv)
  show ?case
  proof (cases "y = []")
    case True
    with Cons yv show ?thesis by auto
  next
    case False
    with Cons.prems yv obtain c1 where c1: "setProp cur y (JNum v) = Inr c1" "writeYears ts c1 = Inr c"
      by (auto split: sum.splits)
    from setProp_jget [OF c1(1), of s] Cons.prems(2) have "jget c1 s \<noteq> None"
      by (auto split: if_splits)
    from Cons.IH [OF c1(2) this] show ?thesis .
  qed
qed

lemma writeYears_objTree:
  assumes "objTree L cur" "set (filter (\<lambda>y. y \<noteq> [] \<and> y \<noteq> ''__proto__'') (map fst ts)) \<subseteq> L"
  shows "\<exists>c. writeYears ts cur = Inr c \<and> objTree L c"
  using assms
proof (induction ts arbitrary: cur)
  case Nil
  then show ?case by simp
next
  case (Cons yv ts)
  obtain y v where yv: "yv = (y, v)" by (cases yv)
  from Cons.prems(2) have sub: "set (filter (\<lambda>y. y \<noteq> [] \<and> y \<noteq> ''__proto__'') (map fst ts)) \<subseteq> L"
    by (auto split: if_splits)
  show ?case
  proof (cases "y = [] \<or> y = ''__proto__''")
    case True
    from Cons.prems(1) obtain kvs where "cur = JObj kvs" by (cases cur) auto
    with True Cons.IH [OF Cons.prems(1) sub] yv show ?thesis by auto
  next
    case False
    with Cons.prems(2) yv have "y \<in> L" by auto
    from setProp_objTree [OF Cons.prems(1) this, of "JNum v"] obtain c1 where
      c1: "setProp cur y (JNum v) = Inr c1" "objTree L c1" by blast
    from Cons.IH [OF c1(2) sub] c1(1) False yv show ?thesis by auto
  qed
qed

lemma writeCagr_jget:
  assumes "writeCagr fmt r cur = Inr c"
  shows "jget c s = (if s = ''CAGR'' \<and> cagr r \<noteq> None \<and> cagr r \<noteq> Some 0
                     then Some (JStr (fmt (the (cagr r)) @ ''%'')) else jget cur s)"
proof (cases "cagr r")
  case None
  with assms show ?thesis by (simp add: writeCagr_def)
next
  case (Some x)
  show ?thesis
  proof (cases "x = 0")
    case True
    with Some assms show ?thesis by (simp add: writeCagr_def)
  next
    case False
    with Some assms have "setProp cur ''CAGR'' (JStr (fmt x @ ''%'')) = Inr c"
      by (simp add: writeCagr_def)
    from setProp_jget [OF this, of s] Some False show ?thesis by simp
  qed
qed

lemma writeCagr_objTree:
  assumes "objTree L cur" "''CAGR'' \<in> L"
  shows "\<exists>c. writeCagr fmt r cur = Inr c \<and> objTree L c"
  using assms setProp_objTree [OF assms]
  by (auto simp: writeCagr_def split: option.splits)

lemma writeAggregated_jget:
  assumes "writeAggregated r cur = Inr c"
  shows "(s \<noteq> ''_aggregated'' \<and> s \<noteq> ''_level'' \<longrightarrow> jget c s = jget cur s)
      \<and> (jget cur s \<noteq> None \<longrightarrow> jget c s \<noteq> None)"
proof (cases "is_aggregated r = Some True")
  case True
  with assms(1) obtain c1 where c1: "setProp cur ''_aggregated'' (JBool True) = Inr c1"
      "(case aggregation_level r of None \<Rightarrow> Inr c1 | Some l \<Rightarrow> setProp c1 ''_level'' (JNum (real_of_int l))) = Inr c"
    by (auto simp: writeAggregated_def split: sum.splits)
  show ?thesis
  proof (cases "aggregation_level r")
    case None
    with c1 setProp_jget [OF c1(1), of s] show ?thesis by auto
  next
    case (Some l)
    with c1 have "setProp c1 ''_level'' (JNum (real_of_int l)) = Inr c" by simp
    from setProp_jget [OF this, of s] setProp_jget [OF c1(1), of s] show ?thesis by auto
  qed
next
  case False
  with assms show ?thesis by (simp add: writeAggregated_def)
qed

lemma writeAggregated_objTree:
  assumes "objTree L cur" "''_aggregated'' \<in> L" "''_level'' \<in> L"
  shows "\<exists>c. writeAggregated r cur = Inr c \<and> objTree L c"
proof (cases "is_aggregated r = Some True")
  case True
  from setProp_objTree [OF assms(1,2), of "JBool True"] obtain c1 where
    c1: "setProp cur ''_aggregated'' (JBool True) = Inr c1" "objTree L c1" by blast
  show ?thesis
  proof (cases "aggregation_level r")
    case None
    with True c1 show ?thesis by (simp add: writeAggregated_def)
  next
    case (Some l)
    from setProp_objTree [OF c1(2) assms(3), of "JNum (real_of_int l)"] Some True c1 show ?thesis
      by (simp add: writeAggregated_def)
  qed
next
  case False
  with assms show ?thesis by (simp add: writeAggregated_def)
qed


lemma valueLeaf_steps:
  assumes "valueLeaf fmt r cur = Inr c"
  obtains c1 c2 where "writeYears (time_series r) cur = Inr c1" "writeCagr fmt r c1 = Inr c2"
    "writeAggregated r c2 = Inr c"
  using assms by (auto simp: valueLeaf_def split: sum.splits)

lemma volumeLeaf_steps:
  assumes "volumeLeaf fmt r cur = Inr c"
  obtains c1 where "writeYears (time_series r) cur = Inr c1" "writeCagr fmt r c1 = Inr c"
  using assms by (auto simp: volumeLeaf_def split: sum.splits)

lemma cagr_steps:
  assumes "writeYears (time_series r) cur = Inr c1" "writeCagr fmt r c1 = Inr c2"
  shows "jget c2 ''CAGR'' = (case cagrWritten fmt r of None \<Rightarrow> jget cur ''CAGR'' | Some v \<Rightarrow> Some v)"
  using writeYears_jget [OF assms(1), of "''CAGR''"] writeCagr_jget [OF assms(2), of "''CAGR''"]
  by (auto simp: cagrWritten_def split: option.splits)

lemma valueLeaf_cagr:
  assumes "valueLeaf fmt r cur = Inr c"
  shows "jget c ''CAGR'' = (case cagrWritten fmt r of None \<Rightarrow> jget cur ''CAGR'' | Some v \<Rightarrow> Some v)"
proof -
  from assms(1) obtain c1 c2 where s: "writeYears (time_series r) cur = Inr c1" "writeCagr fmt r c1 = Inr c2"
    "writeAggregated r c2 = Inr c" by (rule valueLeaf_steps)
  from writeAggregated_jget [OF s(3), of "''CAGR''"] cagr_steps [OF s(1,2)] show ?thesis by simp
qed

lemma volumeLeaf_cagr:
  assumes "volumeLeaf fmt r cur = Inr c"
  shows "jget c ''CAGR'' = (case cagrWritten fmt r of None \<Rightarrow> jget cur ''CAGR'' | Some v \<Rightarrow> Some v)"
proof -
  from assms(1) obtain c1 where s: "writeYears (time_series r) cur = Inr c1" "writeCagr fmt r c1 = Inr c"
    by (rule volumeLeaf_steps)
  from cagr_steps [OF s] show ?thesis .
qed

lemma valueLeaf_frame:
  assumes "valueLeaf fmt r cur = Inr c" "s \<notin> set (leafKeys [r])"
  shows "jget c s = jget cur s"
proof -
  from assms(1) obtain c1 c2 where st: "writeYears (time_series r) cur = Inr c1" "writeCagr fmt r c1 = Inr c2"
    "writeAggregated r c2 = Inr c" by (rule valueLeaf_steps)
  from assms(2) have k: "s \<noteq> ''CAGR''" "s \<noteq> ''_aggregated''" "s \<noteq> ''_level''"
      "s \<notin> set (filter (\<lambda>y. y \<noteq> [] \<and> y \<noteq> ''__proto__'') (map fst (time_series r)))"
    by (auto simp: leafKeys_def yearKeys_def)
  from writeYears_frame [OF st(1) k(4)] writeCagr_jget [OF st(2), of s]
    writeAggregated_jget [OF st(3), of s] k show ?thesis by simp
qed

lemma volumeLeaf_frame:
  assumes "volumeLeaf fmt r cur = Inr c" "s \<notin> set (leafKeys [r])"
  shows "jget c s = jget cur s"
proof -
  from assms(1) obtain c1 where st: "writeYears (time_series r) cur = Inr c1" "writeCagr fmt r c1 = Inr c"
    by (rule volumeLeaf_steps)
  from assms(2) have k: "s \<noteq> ''CAGR''"
      "s \<notin> set (filter (\<lambda>y. y \<noteq> [] \<and> y \<noteq> ''__proto__'') (map fst (time_series r)))"
    by (auto simp: leafKeys_def yearKeys_def)
  from writeYears_frame [OF st(1) k(2)] writeCagr_jget [OF st(2), of s] k show ?thesis by simp
qed

lemma writeCagr_keeps:
  assumes "writeCagr fmt r cur = Inr c" "jget cur s \<noteq> None"
  shows "jget c s \<noteq> None"
  using writeCagr_jget [OF assms(1), of s] assms(2) by (auto split: if_splits)

lemma valueLeaf_keeps:
  assumes "valueLeaf fmt r cur = Inr c" "jget cur s \<noteq> None"
  shows "jget c s \<noteq> None"
proof -
  from assms(1) obtain c1 c2 where st: "writeYears (time_series r) cur = Inr c1" "writeCagr fmt r c1 = Inr c2"
    "writeAggregated r c2 = Inr c" by (rule valueLeaf_steps)
  from writeYears_keeps [OF st(1) assms(2)] have "jget c1 s \<noteq> None" .
  from writeCagr_keeps [OF st(2) this] have "jget c2 s \<noteq> None" .
  with writeAggregated_jget [OF st(3), of s] show ?thesis by simp
qed

lemma volumeLeaf_keeps:
  assumes "volumeLeaf fmt r cur = Inr c" "jget cur s \<noteq> None"
  shows "jget c s \<noteq> None"
proof -
  from assms(1) obtain c1 where st: "writeYears (time_series r) cur = Inr c1" "writeCagr fmt r c1 = Inr c"
    by (rule volumeLeaf_steps)
  from writeYears_keeps [OF st(1) assms(2)] have "jget c1 s \<noteq> None" .
  from writeCagr_keeps [OF st(2) this] show ?thesis .
qed

lemma writeYears_written:
  assumes "writeYears (time_series r) cur = Inr c" "y \<in> set (yearKeys r)"
  shows "jget c y \<noteq> None"
proof -
  from assms(2) have y: "y \<noteq> []" "y \<noteq> ''__proto__''" "y \<in> fst ` set (time_series r)"
    by (auto simp: yearKeys_def)
  then have "map_of (rev (time_series r)) y \<noteq> None"
    by (simp add: map_of_eq_None_iff)
  with writeYears_jget [OF assms(1) y(1,2)] show ?thesis by (auto split: option.splits)
qed

lemma valueLeaf_written:
  assumes "valueLeaf fmt r cur = Inr c" "y \<in> set (yearKeys r)"
  shows "jget c y \<noteq> None"
proof -
  from assms(1) obtain c1 c2 where st: "writeYears (time_series r) cur = Inr c1" "writeCagr fmt r c1 = Inr c2"
    "writeAggregated r c2 = Inr c" by (rule valueLeaf_steps)
  from writeYears_written [OF st(1) assms(2)] have "jget c1 y \<noteq> None" .
  from writeCagr_keeps [OF st(2) this] have "jget c2 y \<noteq> None" .
  with writeAggregated_jget [OF st(3), of y] show ?thesis by simp
qed

lemma volumeLeaf_written:
  assumes "volumeLeaf fmt r cur = Inr c" "y \<in> set (yearKeys r)"
  shows "jget c y \<noteq> None"
proof -
  from assms(1) obtain c1 where st: "writeYears (time_series r) cur = Inr c1" "writeCagr fmt r c1 = Inr c"
    by (rule volumeLeaf_steps)
  from writeYears_written [OF st(1) assms(2)] have "jget c1 y \<noteq> None" .
  from writeCagr_keeps [OF st(2) this] show ?thesis .
qed

lemma valueLeaf_objTree:
  assumes "objTree L cur" "set (leafKeys [r]) \<subseteq> L"
  shows "\<exists>c. valueLeaf fmt r cur = Inr c \<and> objTree L c"
proof -
  from assms(2) have k: "''CAGR'' \<in> L" "''_aggregated'' \<in> L" "''_level'' \<in> L"
      "set (filter (\<lambda>y. y \<noteq> [] \<and> y \<noteq> ''__proto__'') (map fst (time_series r))) \<subseteq> L"
    by (auto simp: leafKeys_def yearKeys_def)
  from writeYears_objTree [OF assms(1) k(4)] obtain c1 where
    c1: "writeYears (time_series r) cur = Inr c1" "objTree L c1" by blast
  from writeCagr_objTree [OF c1(2) k(1), of fmt r] obtain c2 where
    c2: "writeCagr fmt r c1 = Inr c2" "objTree L c2" by blast
  from writeAggregated_objTree [OF c2(2) k(2,3), of r] obtain c where
    "writeAggregated r c2 = Inr c" "objTree L c" by blast
  with c1 c2 show ?thesis by (simp add: valueLeaf_def)
qed

lemma volumeLeaf_objTree:
  assumes "objTree L cur" "set (leafKeys [r]) \<subseteq> L"
  shows "\<exists>c. volumeLeaf fmt r cur = Inr c \<and> objTree L c"
proof -
  from assms(2) have k: "''CAGR'' \<in> L"
      "set (filter (\<lambda>y. y \<noteq> [] \<and> y \<noteq> ''__proto__'') (map fst (time_series r))) \<subseteq> L"
    by (auto simp: leafKeys_def yearKeys_def)
  from writeYears_objTree [OF assms(1) k(2)] obtain c1 where
    c1: "writeYears (time_series r) cur = Inr c1" "objTree L c1" by blast
  from writeCagr_objTree [OF c1(2) k(1), of fmt r] obtain c2 where
    c2: "writeCagr fmt r c1 = Inr c2" "objTree L c2" by blast
  with c1 show ?thesis by (simp add: volumeLeaf_def)
qed

subsection \<open>Walking in a tree of objects\<close>

lemma walk_objTree:
  assumes "objTree L t" "set p \<inter> (L \<union> set objectPrototypeNames) = {}"
    and k: "\<And>x. objTree L x \<Longrightarrow> \<exists>x'. k x = Inr x' \<and> objTree L x'"
  shows "\<exists>t'. walk p t k = Inr t' \<and> objTree L t'"
  using assms(1,2)
proof (induction p arbitrary: t)
  case Nil
  from k [OF Nil(1)] show ?case by simp
next
  case (Cons s p)
  from Cons.prems(1) obtain kvs where t: "t = JObj kvs" by (cases t) auto
  from Cons.prems(2) have s: "s \<notin> L" "s \<notin> set objectPrototypeNames"
    and p: "set p \<inter> (L \<union> set objectPrototypeNames) = {}" by auto
  define child where "child = (if \<not> truthy (mapGet kvs s) then JObj []
              else (case mapGet kvs s of None \<Rightarrow> JObj [] | Some c \<Rightarrow> c))"
  have co: "objTree L child"
  proof (cases "mapGet kvs s")
    case None
    then show ?thesis by (simp add: child_def)
  next
    case (Some c)
    from mapGet_Some_mem [OF Some] Cons.prems(1) t s have "objTree L c" by auto
    then obtain kc where "c = JObj kc" by (cases c) auto
    with Some \<open>objTree L c\<close> show ?thesis by (simp add: child_def)
  qed
  from Cons.IH [OF co p] obtain child' where c': "walk p child k = Inr child'" "objTree L child'"
    by blast
  have "objTree L (JObj (mapSet kvs s child'))"
    using set_mapSet_subset [of kvs s child'] Cons.prems(1) t c'(2) by auto
  with c'(1) s t show ?case
    by (auto simp: child_def Let_def)
qed

lemma forRecords_snoc:
  "forRecords body (rs @ [r]) t0 = (case forRecords body rs t0 of Inl e \<Rightarrow> Inl e | Inr t \<Rightarrow> body r t)"
  by (induction rs arbitrary: t0) (auto split: sum.splits)

lemma cagrAt_snoc:
  "cagrAt fmt (rs @ [r]) = (case cagrWritten fmt r of None \<Rightarrow> cagrAt fmt rs | Some v \<Rightarrow> Some v)"
  by (simp add: cagrAt_def split: option.splits)

lemma records_processed:
  fixes leaf :: "SegmentRecord \<Rightarrow> jvalue \<Rightarrow> jserror + jvalue"
  assumes rs: "\<forall>r \<in> set rs. plainRecord L r" and cL: "''CAGR'' \<in> L"
    and ok: "\<And>r x. plainRecord L r \<Longrightarrow> objTree L x \<Longrightarrow> \<exists>x'. leaf r x = Inr x' \<and> objTree L x'"
    and fr: "\<And>r x x' s. plainRecord L r \<Longrightarrow> leaf r x = Inr x' \<Longrightarrow> s \<notin> L \<Longrightarrow> jget x' s = jget x s"
    and cg: "\<And>r x x'. leaf r x = Inr x' \<Longrightarrow>
        jget x' ''CAGR'' = (case cagrWritten fmt r of None \<Rightarrow> jget x ''CAGR'' | Some v \<Rightarrow> Some v)"
    and kp: "\<And>r x x' s. leaf r x = Inr x' \<Longrightarrow> jget x s \<noteq> None \<Longrightarrow> jget x' s \<noteq> None"
    and yk: "\<And>r x x' y. leaf r x = Inr x' \<Longrightarrow> y \<in> set (yearKeys r) \<Longrightarrow> jget x' y \<noteq> None"
  shows "\<exists>t. forRecords (\<lambda>r t. walk (recordPath r) t (leaf r)) rs (JObj []) = Inr t \<and> objTree L t
      \<and> (\<forall>r \<in> set rs. \<forall>y \<in> set (yearKeys r). getPath (recordPath r @ [y]) t \<noteq> None)
      \<and> (\<forall>p. set p \<inter> L = {} \<longrightarrow>
            getPath (p @ [''CAGR'']) t = cagrAt fmt (filter (\<lambda>r. recordPath r = p) rs))"
  using rs
proof (induction rs rule: rev_induct)
  case Nil
  have "getPath (p @ [''CAGR'']) (JObj []) = None" for p
    by (rule getPath_empty) simp
  then show ?case by (simp add: cagrAt_def)
next
  case (snoc r rs)
  from snoc.prems have pr: "plainRecord L r" and prs: "\<forall>r \<in> set rs. plainRecord L r" by auto
  from snoc.IH [OF prs] obtain t where t: "forRecords (\<lambda>r t. walk (recordPath r) t (leaf r)) rs (JObj []) = Inr t"
      "objTree L t"
      "\<forall>r \<in> set rs. \<forall>y \<in> set (yearKeys r). getPath (recordPath r @ [y]) t \<noteq> None"
      "\<forall>p. set p \<inter> L = {} \<longrightarrow> getPath (p @ [''CAGR'']) t = cagrAt fmt (filter (\<lambda>r. recordPath r = p) rs)"
    by blast
  from pr have pL: "set (recordPath r) \<inter> L = {}"
      and pP: "set (recordPath r) \<inter> (L \<union> set objectPrototypeNames) = {}"
      and yL: "set (yearKeys r) \<subseteq> L"
    by (auto simp: plainRecord_def)
  from walk_objTree [OF t(2) pP, of "leaf r"] ok [OF pr] obtain t' where
    t': "walk (recordPath r) t (leaf r) = Inr t'" "objTree L t'" by blast
  from walk_node [OF t'(1)] obtain x x' where x: "leaf r x = Inr x'" "getPath (recordPath r) t' = Some x'"
      "\<forall>key. jget x key = getPath (recordPath r @ [key]) t" by blast
  have here: "getPath (recordPath r @ [key]) t' = jget x' key" for key
    using x(2) by (simp add: getPath_append split: option.splits)
  have other: "getPath (p @ [key]) t' = getPath (p @ [key]) t"
    if "p \<noteq> recordPath r" "set p \<inter> L = {}" "key \<in> L" for p key
    by (rule walk_frame [OF t'(1) that(1,2) pL that(3)]) (rule fr [OF pr])
  have e: "forRecords (\<lambda>r t. walk (recordPath r) t (leaf r)) (rs @ [r]) (JObj []) = Inr t'"
    by (simp add: forRecords_snoc t(1) t'(1))
  have years: "getPath (recordPath r0 @ [y]) t' \<noteq> None" if "r0 \<in> set (rs @ [r])" "y \<in> set (yearKeys r0)" for r0 y
  proof (cases "recordPath r0 = recordPath r")
    case True
    show ?thesis
    proof (cases "r0 = r")
      case True
      with yk [OF x(1), of y] that here [of y] show ?thesis by simp
    next
      case False
      with that have "r0 \<in> set rs" by simp
      with t(3) that have "getPath (recordPath r0 @ [y]) t \<noteq> None" by blast
      with x(3) True have "jget x y \<noteq> None" by simp
      from kp [OF x(1) this] here [of y] True show ?thesis by simp
    qed
  next
    case False
    then have "r0 \<noteq> r" by auto
    with that have r0: "r0 \<in> set rs" by simp
    with prs have "plainRecord L r0" by blast
    then have "set (recordPath r0) \<inter> L = {}" "y \<in> L"
      using that(2) by (auto simp: plainRecord_def)
    from other [OF False this] t(3) r0 that(2) show ?thesis by simp
  qed
  have cagrs: "getPath (p @ [''CAGR'']) t' = cagrAt fmt (filter (\<lambda>r. recordPath r = p) (rs @ [r]))"
    if "set p \<inter> L = {}" for p
  proof (cases "p = recordPath r")
    case True
    from t(4) that have "getPath (p @ [''CAGR'']) t = cagrAt fmt (filter (\<lambda>r. recordPath r = p) rs)"
      by blast
    with x(3) True have "jget x ''CAGR'' = cagrAt fmt (filter (\<lambda>r. recordPath r = p) rs)" by simp
    with cg [OF x(1)] here [of "''CAGR''"] True show ?thesis
      by (simp add: cagrAt_snoc split: option.splits)
  next
    case False
    from other [OF False that cL] t(4) that False show ?thesis by auto
  qed
  from e t'(2) years cagrs show ?case by blast
qed


subsection \<open>The two exports as walks\<close>

lemma segmentsOf_walked:
  "take MAX_SEGMENT_DEPTH (filter (\<lambda>s. s \<noteq> []) (segmentsOf r)) = segmentsOf r"
proof -
  have "filter (\<lambda>s. s \<noteq> []) (segmentsOf r) = segmentsOf r"
    using segmentsOf_nonempty [of r] by (simp add: filter_id_conv)
  with length_segmentsOf [of r] show ?thesis
    by (simp add: MAX_SEGMENT_DEPTH_def)
qed

lemma valueRecord_walk: "valueRecord fmt = (\<lambda>r t. walk (recordPath r) t (valueLeaf fmt r))"
  by (intro ext) (simp add: valueRecord_def recordPath_def descend_walk segmentsOf_walked)

lemma volumeRecord_walk: "volumeRecord fmt = (\<lambda>r t. walk (recordPath r) t (volumeLeaf fmt r))"
  by (intro ext) (simp add: volumeRecord_def recordPath_def descend_walk segmentsOf_walked)

lemma plainPaths_plainRecord:
  assumes "plainPaths recs" "r \<in> set recs"
  shows "plainRecord (set (leafKeys recs)) r"
  using assms by (auto simp: plainPaths_def plainRecord_def list_all_iff leafKeys_def)

lemma plainRecord_leafKeys:
  assumes "plainRecord (set (leafKeys recs)) r"
  shows "set (leafKeys [r]) \<subseteq> set (leafKeys recs)"
  using assms by (auto simp: plainRecord_def leafKeys_def)

lemma value_processed:
  assumes "plainPaths recs"
  shows "\<exists>t. forRecords (valueRecord fmt) recs (JObj []) = Inr t
      \<and> (\<forall>r \<in> set recs. \<forall>y \<in> set (yearKeys r). getPath (recordPath r @ [y]) t \<noteq> None)
      \<and> (\<forall>r \<in> set recs. getPath (recordPath r @ [''CAGR'']) t
            = cagrAt fmt (filter (\<lambda>r'. recordPath r' = recordPath r) recs))"
proof -
  define L where "L = set (leafKeys recs)"
  have rs: "\<forall>r \<in> set recs. plainRecord L r"
    using plainPaths_plainRecord [OF assms] by (simp add: L_def)
  have cL: "''CAGR'' \<in> L"
    by (simp add: L_def leafKeys_def)
  have "\<exists>t. forRecords (\<lambda>r t. walk (recordPath r) t (valueLeaf fmt r)) recs (JObj []) = Inr t \<and> objTree L t
      \<and> (\<forall>r \<in> set recs. \<forall>y \<in> set (yearKeys r). getPath (recordPath r @ [y]) t \<noteq> None)
      \<and> (\<forall>p. set p \<inter> L = {} \<longrightarrow>
            getPath (p @ [''CAGR'']) t = cagrAt fmt (filter (\<lambda>r. recordPath r = p) recs))"
  proof (rule records_processed [OF rs cL])
    fix r x assume "plainRecord L r" "objTree L x"
    then show "\<exists>x'. valueLeaf fmt r x = Inr x' \<and> objTree L x'"
      using plainRecord_leafKeys [of recs r] by (intro valueLeaf_objTree) (simp_all add: L_def)
  next
    fix r x x' s assume "plainRecord L r" "valueLeaf fmt r x = Inr x'" "s \<notin> L"
    then show "jget x' s = jget x s"
      using plainRecord_leafKeys [of recs r] by (intro valueLeaf_frame [of fmt r]) (auto simp: L_def)
  next
    fix r x x' assume "valueLeaf fmt r x = Inr x'"
    then show "jget x' ''CAGR'' = (case cagrWritten fmt r of None \<Rightarrow> jget x ''CAGR'' | Some v \<Rightarrow> Some v)"
      by (rule valueLeaf_cagr)
  next
    fix r x x' s assume "valueLeaf fmt r x = Inr x'" "jget x s \<noteq> None"
    then show "jget x' s \<noteq> None" by (rule valueLeaf_keeps)
  next
    fix r x x' y assume "valueLeaf fmt r x = Inr x'" "y \<in> set (yearKeys r)"
    then show "jget x' y \<noteq> None" by (rule valueLeaf_written)
  qed
  then obtain t where t: "forRecords (valueRecord fmt) recs (JObj []) = Inr t"
      "\<forall>r \<in> set recs. \<forall>y \<in> set (yearKeys r). getPath (recordPath r @ [y]) t \<noteq> None"
      "\<forall>p. set p \<inter> L = {} \<longrightarrow>
            getPath (p @ [''CAGR'']) t = cagrAt fmt (filter (\<lambda>r. recordPath r = p) recs)"
    unfolding valueRecord_walk by blast
  have "getPath (recordPath r @ [''CAGR'']) t = cagrAt fmt (filter (\<lambda>r'. recordPath r' = recordPath r) recs)"
    if "r \<in> set recs" for r
  proof -
    from rs that have "set (recordPath r) \<inter> L = {}" by (auto simp: plainRecord_def)
    with t(3) show ?thesis by blast
  qed
  with t(1,2) show ?thesis by blast
qed

lemma volume_processed:
  assumes "plainPaths recs"
  shows "\<exists>t. forRecords (volumeRecord fmt) recs (JObj []) = Inr t
      \<and> (\<forall>r \<in> set recs. \<forall>y \<in> set (yearKeys r). getPath (recordPath r @ [y]) t \<noteq> None)
      \<and> (\<forall>r \<in> set recs. getPath (recordPath r @ [''CAGR'']) t
            = cagrAt fmt (filter (\<lambda>r'. recordPath r' = recordPath r) recs))"
proof -
  define L where "L = set (leafKeys recs)"
  have rs: "\<forall>r \<in> set recs. plainRecord L r"
    using plainPaths_plainRecord [OF assms] by (simp add: L_def)
  have cL: "''CAGR'' \<in> L"
    by (simp add: L_def leafKeys_def)
  have "\<exists>t. forRecords (\<lambda>r t. walk (recordPath r) t (volumeLeaf fmt r)) recs (JObj []) = Inr t \<and> objTree L t
      \<and> (\<forall>r \<in> set recs. \<forall>y \<in> set (yearKeys r). getPath (recordPath r @ [y]) t \<noteq> None)
      \<and> (\<forall>p. set p \<inter> L = {} \<longrightarrow>
            getPath (p @ [''CAGR'']) t = cagrAt fmt (filter (\<lambda>r. recordPath r = p) recs))"
  proof (rule records_processed [OF rs cL])
    fix r x assume "plainRecord L r" "objTree L x"
    then show "\<exists>x'. volumeLeaf fmt r x = Inr x' \<and> objTree L x'"
      using plainRecord_leafKeys [of recs r] by (intro volumeLeaf_objTree) (simp_all add: L_def)
  next
    fix r x x' s assume "plainRecord L r" "volumeLeaf fmt r x = Inr x'" "s \<notin> L"
    then show "jget x' s = jget x s"
      using plainRecord_leafKeys [of recs r] by (intro volumeLeaf_frame [of fmt r]) (auto simp: L_def)
  next
    fix r x x' assume "volumeLeaf fmt r x = Inr x'"
    then show "jget x' ''CAGR'' = (case cagrWritten fmt r of None \<Rightarrow> jget x ''CAGR'' | Some v \<Rightarrow> Some v)"
      by (rule volumeLeaf_cagr)
  next
    fix r x x' s assume "volumeLeaf fmt r x = Inr x'" "jget x s \<noteq> None"
    then show "jget x' s \<noteq> None" by (rule volumeLeaf_keeps)
  next
    fix r x x' y assume "volumeLeaf fmt r x = Inr x'" "y \<in> set (yearKeys r)"
    then show "jget x' y \<noteq> None" by (rule volumeLeaf_written)
  qed
  then obtain t where t: "forRecords (volumeRecord fmt) recs (JObj []) = Inr t"
      "\<forall>r \<in> set recs. \<forall>y \<in> set (yearKeys r). getPath (recordPath r @ [y]) t \<noteq> None"
      "\<forall>p. set p \<inter> L = {} \<longrightarrow>
            getPath (p @ [''CAGR'']) t = cagrAt fmt (filter (\<lambda>r. recordPath r = p) recs)"
    unfolding volumeRecord_walk by blast
  have "getPath (recordPath r @ [''CAGR'']) t = cagrAt fmt (filter (\<lambda>r'. recordPath r' = recordPath r) recs)"
    if "r \<in> set recs" for r
  proof -
    from rs that have "set (recordPath r) \<inter> L = {}" by (auto simp: plainRecord_def)
    with t(3) show ?thesis by blast
  qed
  with t(1,2) show ?thesis by blast
qed

lemma walk_cagr:
  assumes "walk p t0 k = Inr t1"
    and k: "\<And>x x'. k x = Inr x' \<Longrightarrow>
        jget x' ''CAGR'' = (case w of None \<Rightarrow> jget x ''CAGR'' | Some v \<Rightarrow> Some v)"
  shows "getPath (p @ [''CAGR'']) t1 = (case w of None \<Rightarrow> getPath (p @ [''CAGR'']) t0 | Some v \<Rightarrow> Some v)"
proof -
  from walk_node [OF assms(1)] obtain x x' where x: "k x = Inr x'" "getPath p t1 = Some x'"
      "\<forall>key. jget x key = getPath (p @ [key]) t0" by blast
  from x(2) have "getPath (p @ [''CAGR'']) t1 = jget x' ''CAGR''"
    by (simp add: getPath_append split: option.splits)
  with k [OF x(1)] x(3) show ?thesis by (simp split: option.splits)
qed

lemma cagrAt_single:
  assumes "''CAGR'' \<notin> fst ` set (time_series r)"
  shows "cagrAt fmt [r] = (case cagr r of None \<Rightarrow> None
      | Some c \<Rightarrow> if c \<noteq> 0 then Some (JStr (fmt c @ ''%'')) else None)"
proof -
  from assms have "map_of (rev (time_series r)) ''CAGR'' = None"
    by (simp add: map_of_eq_None_iff)
  then show ?thesis
    by (simp add: cagrAt_def cagrWritten_def split: option.splits)
qed

subsection \<open>The depth of the exported tree\<close>




















lemmas export_eval = extractValueData_def extractVolumeData_def mkData_def mkRecord_def deepRecord_def
  valueRecord_def volumeRecord_def valueLeaf_def volumeLeaf_def segmentsOf_def List.map_filter_def
  writeCagr_def writeAggregated_def MAX_SEGMENT_DEPTH_def objectPrototypeNames_def fmtWhole_def
  String_of_int_def digitChar_def

lemmas plain_eval = plainPaths_def recordPath_def leafKeys_def yearKeys_def objectPrototypeNames_def
  deepRecord_def mkRecord_def segmentsOf_def List.map_filter_def MAX_SEGMENT_DEPTH_def



text \<open>
  C10 (as amended). When no key on the way to a record's node is an inherited name or a key
  written at a node, both exports return a tree in which the CAGR field at the node of a
  record is the last value written there by the records of that path, in the order of the
  list; a record writes the text of its \<^verbatim>\<open>cagr\<close> followed by the percent sign when \<^verbatim>\<open>cagr\<close> is
  truthy (present and not 0), else the value of a year key named CAGR if it has one, else
  nothing. So for a record that is alone on its path and has no such year key the field is
  there exactly when \<^verbatim>\<open>cagr\<close> is truthy, and with \<^verbatim>\<open>cagr\<close> equal to 0 it is not there. At any tree
  and for any record, processing the record sets the field at its node to what the record
  writes and leaves it as it was when the record writes nothing.
\<close>

theorem cagr_field_last_write:
  assumes "plainPaths recs"
  shows "(\<exists>t. extractValueData fmt (mkData recs vol) = Inr t
          \<and> (\<forall>r \<in> set recs. getPath (recordPath r @ [''CAGR'']) t
                = cagrAt fmt (filter (\<lambda>r'. recordPath r' = recordPath r) recs))
          \<and> (\<forall>r \<in> set recs. filter (\<lambda>r'. recordPath r' = recordPath r) recs = [r]
                \<and> ''CAGR'' \<notin> fst ` set (time_series r) \<longrightarrow>
                getPath (recordPath r @ [''CAGR'']) t
                  = (case cagr r of None \<Rightarrow> None
                     | Some c \<Rightarrow> if c \<noteq> 0 then Some (JStr (fmt c @ ''%'')) else None)))
    \<and> (\<exists>u. extractVolumeData fmt (mkData val (Some recs)) = Inr u
          \<and> (\<forall>r \<in> set recs. getPath (recordPath r @ [''CAGR'']) u
                = cagrAt fmt (filter (\<lambda>r'. recordPath r' = recordPath r) recs))
          \<and> (\<forall>r \<in> set recs. filter (\<lambda>r'. recordPath r' = recordPath r) recs = [r]
                \<and> ''CAGR'' \<notin> fst ` set (time_series r) \<longrightarrow>
                getPath (recordPath r @ [''CAGR'']) u
                  = (case cagr r of None \<Rightarrow> None
                     | Some c \<Rightarrow> if c \<noteq> 0 then Some (JStr (fmt c @ ''%'')) else None)))
    \<and> (valueRecord fmt r0 t0 = Inr t1 \<longrightarrow>
          getPath (recordPath r0 @ [''CAGR'']) t1
            = (case cagrWritten fmt r0 of None \<Rightarrow> getPath (recordPath r0 @ [''CAGR'']) t0 | Some v \<Rightarrow> Some v))
    \<and> (volumeRecord fmt r0 t0 = Inr t1 \<longrightarrow>
          getPath (recordPath r0 @ [''CAGR'']) t1
            = (case cagrWritten fmt r0 of None \<Rightarrow> getPath (recordPath r0 @ [''CAGR'']) t0 | Some v \<Rightarrow> Some v))"
proof -
  from value_processed [OF assms, of fmt] obtain t where
    t: "forRecords (valueRecord fmt) recs (JObj []) = Inr t"
       "\<forall>r \<in> set recs. getPath (recordPath r @ [''CAGR'']) t
            = cagrAt fmt (filter (\<lambda>r'. recordPath r' = recordPath r) recs)"
    by blast
  have a: "\<exists>t. extractValueData fmt (mkData recs vol) = Inr t
          \<and> (\<forall>r \<in> set recs. getPath (recordPath r @ [''CAGR'']) t
                = cagrAt fmt (filter (\<lambda>r'. recordPath r' = recordPath r) recs))
          \<and> (\<forall>r \<in> set recs. filter (\<lambda>r'. recordPath r' = recordPath r) recs = [r]
                \<and> ''CAGR'' \<notin> fst ` set (time_series r) \<longrightarrow>
                getPath (recordPath r @ [''CAGR'']) t
                  = (case cagr r of None \<Rightarrow> None
                     | Some c \<Rightarrow> if c \<noteq> 0 then Some (JStr (fmt c @ ''%'')) else None))"
    using t by (auto simp: extractValueData_def mkData_def cagrAt_single)
  from volume_processed [OF assms, of fmt] obtain u where
    u: "forRecords (volumeRecord fmt) recs (JObj []) = Inr u"
       "\<forall>r \<in> set recs. getPath (recordPath r @ [''CAGR'']) u
            = cagrAt fmt (filter (\<lambda>r'. recordPath r' = recordPath r) recs)"
    by blast
  have b: "\<exists>u. extractVolumeData fmt (mkData val (Some recs)) = Inr u
          \<and> (\<forall>r \<in> set recs. getPath (recordPath r @ [''CAGR'']) u
                = cagrAt fmt (filter (\<lambda>r'. recordPath r' = recordPath r) recs))
          \<and> (\<forall>r \<in> set recs. filter (\<lambda>r'. recordPath r' = recordPath r) recs = [r]
                \<and> ''CAGR'' \<notin> fst ` set (time_series r) \<longrightarrow>
                getPath (recordPath r @ [''CAGR'']) u
                  = (case cagr r of None \<Rightarrow> None
                     | Some c \<Rightarrow> if c \<noteq> 0 then Some (JStr (fmt c @ ''%'')) else None))"
    using u by (auto simp: extractVolumeData_def mkData_def cagrAt_single)
  have c: "valueRecord fmt r0 t0 = Inr t1 \<longrightarrow>
          getPath (recordPath r0 @ [''CAGR'']) t1
            = (case cagrWritten fmt r0 of None \<Rightarrow> getPath (recordPath r0 @ [''CAGR'']) t0 | Some v \<Rightarrow> Some v)"
    unfolding valueRecord_walk by (intro impI walk_cagr [where k = "valueLeaf fmt r0"] valueLeaf_cagr)
  have d: "volumeRecord fmt r0 t0 = Inr t1 \<longrightarrow>
          getPath (recordPath r0 @ [''CAGR'']) t1
            = (case cagrWritten fmt r0 of None \<Rightarrow> getPath (recordPath r0 @ [''CAGR'']) t0 | Some v \<Rightarrow> Some v)"
    unfolding volumeRecord_walk by (intro impI walk_cagr [where k = "volumeLeaf fmt r0"] volumeLeaf_cagr)
  from a b c d show ?thesis
    by (intro conjI)
qed

theorem cagr_field_last_write_witness:
  "plainPaths [(mkRecord ''US'' ''T'' [(''2024'', 1)] None None) \<lparr> cagr := Some 5 \<rparr>,
               (mkRecord ''US'' ''T'' [(''2025'', 2)] None None) \<lparr> cagr := Some 0 \<rparr>,
               deepRecord]
   \<and> (\<exists>t. extractValueData fmtWhole
             (mkData [(mkRecord ''US'' ''T'' [(''2024'', 1)] None None) \<lparr> cagr := Some 5 \<rparr>,
                      (mkRecord ''US'' ''T'' [(''2025'', 2)] None None) \<lparr> cagr := Some 0 \<rparr>,
                      deepRecord] None) = Inr t
          \<and> getPath [''US'', ''T'', ''CAGR''] t = Some (JStr ''5%'')
          \<and> getPath [''US'', ''T'', ''a'', ''b'', ''e'', ''CAGR''] t = None)
   \<and> (\<exists>u. extractVolumeData fmtWhole
             (mkData [] (Some [(mkRecord ''US'' ''T'' [(''2024'', 1)] None None) \<lparr> cagr := Some 5 \<rparr>,
                      (mkRecord ''US'' ''T'' [(''2025'', 2)] None None) \<lparr> cagr := Some 0 \<rparr>,
                      deepRecord])) = Inr u
          \<and> getPath [''US'', ''T'', ''CAGR''] u = Some (JStr ''5%'')
          \<and> getPath [''US'', ''T'', ''a'', ''b'', ''e'', ''CAGR''] u = None)
   \<and> valueRecord fmtWhole ((mkRecord ''US'' ''T'' [(''2025'', 2)] None None) \<lparr> cagr := Some 0 \<rparr>)
        (JObj [(''US'', JObj [(''T'', JObj [(''2024'', JNum 1), (''CAGR'', JStr ''5%'')])])])
      = Inr (JObj [(''US'', JObj [(''T'', JObj [(''2024'', JNum 1), (''CAGR'', JStr ''5%''), (''2025'', JNum 2)])])])
   \<and> volumeRecord fmtWhole ((mkRecord ''US'' ''T'' [(''2025'', 2)] None None) \<lparr> cagr := Some 0 \<rparr>)
        (JObj [(''US'', JObj [(''T'', JObj [(''2024'', JNum 1), (''CAGR'', JStr ''5%'')])])])
      = Inr (JObj [(''US'', JObj [(''T'', JObj [(''2024'', JNum 1), (''CAGR'', JStr ''5%''), (''2025'', JNum 2)])])])
   \<and> getPath [''US'', ''T'', ''CAGR'']
        (JObj [(''US'', JObj [(''T'', JObj [(''2024'', JNum 1), (''CAGR'', JStr ''5%''), (''2025'', JNum 2)])])])
      = getPath [''US'', ''T'', ''CAGR'']
        (JObj [(''US'', JObj [(''T'', JObj [(''2024'', JNum 1), (''CAGR'', JStr ''5%'')])])])"
proof -
  let ?a = "(mkRecord ''US'' ''T'' [(''2024'', 1)] None None) \<lparr> cagr := Some 5 \<rparr>"
  let ?b = "(mkRecord ''US'' ''T'' [(''2025'', 2)] None None) \<lparr> cagr := Some 0 \<rparr>"
  let ?t0 = "JObj [(''US'', JObj [(''T'', JObj [(''2024'', JNum 1), (''CAGR'', JStr ''5%'')])])]"
  let ?t1 = "JObj [(''US'', JObj [(''T'', JObj [(''2024'', JNum 1), (''CAGR'', JStr ''5%''), (''2025'', JNum 2)])])]"
  have h: "plainPaths [?a, ?b, deepRecord]"
    by (simp add: plain_eval)
  have p: "recordPath ?a = [''US'', ''T'']" "recordPath ?b = [''US'', ''T'']"
      "recordPath deepRecord = [''US'', ''T'', ''a'', ''b'', ''e'']"
    by (simp_all add: plain_eval)
  have f: "filter (\<lambda>r'. recordPath r' = recordPath ?a) [?a, ?b, deepRecord] = [?a, ?b]"
      "filter (\<lambda>r'. recordPath r' = recordPath deepRecord) [?a, ?b, deepRecord] = [deepRecord]"
    by (simp_all add: p)
  have v: "cagrAt fmtWhole [?a, ?b] = Some (JStr ''5%'')" "cagrWritten fmtWhole ?b = None"
    by (simp_all add: cagrAt_def cagrWritten_def mkRecord_def fmtWhole_def String_of_int_def digitChar_def)
  have alone: "filter (\<lambda>r'. recordPath r' = recordPath deepRecord) [?a, ?b, deepRecord] = [deepRecord]
      \<and> ''CAGR'' \<notin> fst ` set (time_series deepRecord)"
    by (intro conjI) (rule f(2), simp add: deepRecord_def mkRecord_def)
  have c0: "cagr deepRecord = Some 0"
    by (simp add: deepRecord_def)
  have steps: "valueRecord fmtWhole ?b ?t0 = Inr ?t1" "volumeRecord fmtWhole ?b ?t0 = Inr ?t1"
    by (simp_all add: export_eval)
  note g = cagr_field_last_write [OF h, where fmt = fmtWhole and vol = None and val = "[]"
      and ?r0.0 = ?b and ?t0.0 = ?t0 and ?t1.0 = ?t1]
  from g obtain t where t: "extractValueData fmtWhole (mkData [?a, ?b, deepRecord] None) = Inr t"
      "\<forall>r \<in> set [?a, ?b, deepRecord]. getPath (recordPath r @ [''CAGR'']) t
          = cagrAt fmtWhole (filter (\<lambda>r'. recordPath r' = recordPath r) [?a, ?b, deepRecord])"
      "\<forall>r \<in> set [?a, ?b, deepRecord]. filter (\<lambda>r'. recordPath r' = recordPath r) [?a, ?b, deepRecord] = [r]
          \<and> ''CAGR'' \<notin> fst ` set (time_series r) \<longrightarrow>
          getPath (recordPath r @ [''CAGR'']) t
            = (case cagr r of None \<Rightarrow> None
               | Some c \<Rightarrow> if c \<noteq> 0 then Some (JStr (fmtWhole c @ ''%'')) else None)"
    by blast
  from t(2) have t1: "getPath (recordPath ?a @ [''CAGR'']) t
          = cagrAt fmtWhole (filter (\<lambda>r'. recordPath r' = recordPath ?a) [?a, ?b, deepRecord])"
    by simp
  from t(3) alone have t2: "getPath (recordPath deepRecord @ [''CAGR'']) t
            = (case cagr deepRecord of None \<Rightarrow> None
               | Some c \<Rightarrow> if c \<noteq> 0 then Some (JStr (fmtWhole c @ ''%'')) else None)"
    by simp
  from g obtain u where u: "extractVolumeData fmtWhole (mkData [] (Some [?a, ?b, deepRecord])) = Inr u"
      "\<forall>r \<in> set [?a, ?b, deepRecord]. getPath (recordPath r @ [''CAGR'']) u
          = cagrAt fmtWhole (filter (\<lambda>r'. recordPath r' = recordPath r) [?a, ?b, deepRecord])"
      "\<forall>r \<in> set [?a, ?b, deepRecord]. filter (\<lambda>r'. recordPath r' = recordPath r) [?a, ?b, deepRecord] = [r]
          \<and> ''CAGR'' \<notin> fst ` set (time_series r) \<longrightarrow>
          getPath (recordPath r @ [''CAGR'']) u
            = (case cagr r of None \<Rightarrow> None
               | Some c \<Rightarrow> if c \<noteq> 0 then Some (JStr (fmtWhole c @ ''%'')) else None)"
    by blast
  from u(2) have u1: "getPath (recordPath ?a @ [''CAGR'']) u
          = cagrAt fmtWhole (filter (\<lambda>r'. recordPath r' = recordPath ?a) [?a, ?b, deepRecord])"
    by simp
  from u(3) alone have u2: "getPath (recordPath deepRecord @ [''CAGR'']) u
            = (case cagr deepRecord of None \<Rightarrow> None
               | Some c \<Rightarrow> if c \<noteq> 0 then Some (JStr (fmtWhole c @ ''%'')) else None)"
    by simp
  from t1 t2 u1 u2 have r: "getPath [''US'', ''T'', ''CAGR''] t = Some (JStr ''5%'')"
      "getPath [''US'', ''T'', ''a'', ''b'', ''e'', ''CAGR''] t = None"
      "getPath [''US'', ''T'', ''CAGR''] u = Some (JStr ''5%'')"
      "getPath [''US'', ''T'', ''a'', ''b'', ''e'', ''CAGR''] u = None"
    unfolding f v c0 unfolding p by simp_all
  from g steps(1) have "getPath (recordPath ?b @ [''CAGR'']) ?t1
      = (case cagrWritten fmtWhole ?b of None \<Rightarrow> getPath (recordPath ?b @ [''CAGR'']) ?t0 | Some v \<Rightarrow> Some v)"
    by blast
  then have st: "getPath [''US'', ''T'', ''CAGR''] ?t1 = getPath [''US'', ''T'', ''CAGR''] ?t0"
    unfolding v p by simp
  from h t(1) u(1) r steps st show ?thesis
    by blast
qed

text \<open>
  C10 as stated fails in two ways. Two records share the path US, T: the first has a \<^verbatim>\<open>cagr\<close> of
  5 and the second a \<^verbatim>\<open>cagr\<close> of 0, and the node of the second record carries the CAGR field of
  the first in both exports. A record without \<^verbatim>\<open>cagr\<close> whose time series has the key CAGR gets
  a CAGR field, the number stored under that key.
\<close>

theorem cagr_field_without_truthy_cagr:
  "extractValueData fmtWhole
     (mkData [(mkRecord ''US'' ''T'' [(''2024'', 1)] None None) \<lparr> cagr := Some 5 \<rparr>,
              (mkRecord ''US'' ''T'' [(''2025'', 2)] None None) \<lparr> cagr := Some 0 \<rparr>] None)
     = Inr (JObj [(''US'', JObj [(''T'', JObj [(''2024'', JNum 1), (''CAGR'', JStr ''5%''), (''2025'', JNum 2)])])])
   \<and> extractVolumeData fmtWhole
     (mkData [] (Some [(mkRecord ''US'' ''T'' [(''2024'', 1)] None None) \<lparr> cagr := Some 5 \<rparr>,
              (mkRecord ''US'' ''T'' [(''2025'', 2)] None None) \<lparr> cagr := Some 0 \<rparr>]))
     = Inr (JObj [(''US'', JObj [(''T'', JObj [(''2024'', JNum 1), (''CAGR'', JStr ''5%''), (''2025'', JNum 2)])])])
   \<and> recordPath ((mkRecord ''US'' ''T'' [(''2025'', 2)] None None) \<lparr> cagr := Some 0 \<rparr>) = [''US'', ''T'']
   \<and> extractValueData fmtWhole (mkData [mkRecord ''US'' ''T'' [(''CAGR'', 7)] None None] None)
     = Inr (JObj [(''US'', JObj [(''T'', JObj [(''CAGR'', JNum 7)])])])
   \<and> extractVolumeData fmtWhole (mkData [] (Some [mkRecord ''US'' ''T'' [(''CAGR'', 7)] None None]))
     = Inr (JObj [(''US'', JObj [(''T'', JObj [(''CAGR'', JNum 7)])])])"
  by (simp add: export_eval recordPath_def)

end
